theory Spec2Isabelle
  imports Main
begin

section \<open>Data model of \<open>WoolfOTDocument\<close>\<close>

text \<open>
  The document engine is the JavaScript class \<open>WoolfOTDocument\<close>. Its mutable object
  state becomes a record that every operation takes and returns. \<open>Date.now()\<close> is an
  input of each call (the argument \<open>now\<close>, in milliseconds, the same for every reading
  of the clock within one call), a thrown \<open>Error\<close> is the constructor \<open>Threw\<close> of the
  result, carrying the state the call left behind. Buffer positions and lengths are
  natural numbers. Cursors, selections, presence and annotations take no part in what
  is proved below and are left out of the record.
\<close>

type_synonym userId = string
type_synonym attributes = "(string \<times> string) list"
type_synonym metadata = "(string \<times> string) list"

record range =
  index :: nat
  length_r :: nat

datatype delta_op = Retain nat | InsertOp string | DeleteOp nat

type_synonym delta = "delta_op list"

text \<open>The \<open>change\<close> objects built by the mutation primitives, one constructor per \<open>type\<close>.\<close>

datatype change =
    ChInsert userId nat string attributes
  | ChDelete userId nat nat
  | ChReplace userId nat nat string attributes
  | ChDelta userId delta
  | ChExternal userId delta string

record entry =
  change :: change
  e_version :: nat
  e_timestamp :: nat

record lock =
  lockId :: nat
  l_userId :: userId
  l_range :: range
  l_timestamp :: nat
  expiresAt :: nat

text \<open>A pending \<open>setTimeout\<close> callback of \<open>lockRange\<close>: it will call \<open>unlockRange(lockId, userId)\<close>.\<close>

record timer =
  due :: nat
  t_lockId :: nat
  t_userId :: userId

datatype status = Pending | Accepted | Rejected

record suggestion =
  suggestionId :: nat
  g_userId :: userId
  g_range :: range
  newText :: string
  oldText :: string
  status :: status
  g_metadata :: metadata
  createdAt :: nat
  acceptedBy :: "userId option"
  acceptedAt :: "nat option"
  rejectedBy :: "userId option"
  rejectedAt :: "nat option"
  rejectionReason :: "string option"

record correction =
  correctionId :: nat
  c_userId :: userId
  c_range :: range
  original :: string
  applied :: string
  alternates :: "string list"
  c_metadata :: metadata
  c_timestamp :: nat
  c_version :: nat
  reverted :: bool
  revertedBy :: "userId option"
  revertedAt :: "nat option"

record transaction =
  x_userId :: userId
  startVersion :: nat
  changes :: "entry list"
  startedAt :: nat
  committedAt :: "nat option"
  endVersion :: "nat option"
  rolledBack :: bool
  rolledBackAt :: "nat option"

text \<open>
  A subscriber callback receives the log entry and acts on the world outside the
  document (\<open>'w\<close>), never on the document itself; the boolean says whether it
  threw. The JavaScript \<open>Map\<close>s keep insertion order, so they are lists.
  \<open>delivered\<close> is the trace of callback invocations and \<open>console\<close> the lines
  written by \<open>console.error\<close> and \<open>console.warn\<close>.
\<close>

type_synonym 'w callback = "entry \<Rightarrow> 'w \<Rightarrow> bool \<times> 'w"

record 'w doc =
  quill :: string
  documentId :: string
  version :: nat
  changeLog :: "entry list"
  maxLogSize :: nat
  suggestions :: "suggestion list"
  suggestionCounter :: nat
  corrections :: "correction list"
  correctionCounter :: nat
  changeSubscribers :: "(nat \<times> 'w callback) list"
  subscriberCounter :: nat
  currentTransaction :: "transaction option"
  transactionStack :: "transaction list"
  rangeLocks :: "lock list"
  lockCounter :: nat
  timers :: "timer list"
  world :: 'w
  delivered :: "(nat \<times> entry) list"
  console :: "string list"

text \<open>
  Every failure is a plain \<open>Error\<close> told apart by its message:
  \<open>RangeLocked\<close> is \<open>Range is locked by another user\<close>,
  \<open>RangeAlreadyLocked u\<close> is \<open>Range already locked by u\<close>,
  \<open>CannotUnlock\<close> is \<open>Cannot unlock range locked by another user\<close>,
  \<open>SuggestionNotFound\<close> is \<open>Suggestion not found\<close>,
  \<open>SuggestionAlready st\<close> is \<open>Suggestion already st\<close>,
  \<open>CorrectionNotFound n\<close> is \<open>Correction n not found\<close>,
  \<open>TransactionInProgress\<close> is \<open>Transaction already in progress\<close> and
  \<open>NoTransaction\<close> is \<open>No transaction in progress\<close>.
\<close>

datatype error =
    RangeLocked
  | RangeAlreadyLocked userId
  | CannotUnlock
  | SuggestionNotFound
  | SuggestionAlready status
  | CorrectionNotFound nat
  | TransactionInProgress
  | NoTransaction

datatype ('a, 's) outcome =
    is_Threw: Threw (thrown: error) (final: 's)
  | is_Returned: Returned (result: 'a) (final: 's)

text \<open>The constructor: \<open>new WoolfOTDocument(quillEditor, documentId)\<close>.\<close>

definition newDoc :: "string \<Rightarrow> string \<Rightarrow> 'w \<Rightarrow> 'w doc" where
  "newDoc text docId w =
     \<lparr> quill = text, documentId = docId, version = 0, changeLog = [], maxLogSize = 1000,
       suggestions = [], suggestionCounter = 0, corrections = [], correctionCounter = 0,
       changeSubscribers = [], subscriberCounter = 0,
       currentTransaction = None, transactionStack = [],
       rangeLocks = [], lockCounter = 0, timers = [],
       world = w, delivered = [], console = [] \<rparr>"

section \<open>The external text buffer\<close>

text \<open>
  The editor widget behind \<open>this.quill\<close> is an external collaborator. Its text is a
  string; \<open>getText\<close>, \<open>insertText\<close>, \<open>deleteText\<close> and \<open>updateContents\<close> are the usual
  splices, positions past the end being clamped to the end.
\<close>

definition getText :: "nat \<Rightarrow> nat \<Rightarrow> string \<Rightarrow> string" where
  "getText idx len b = take len (drop idx b)"

definition insertText :: "nat \<Rightarrow> string \<Rightarrow> string \<Rightarrow> string" where
  "insertText idx text b = take idx b @ text @ drop idx b"

definition deleteText :: "nat \<Rightarrow> nat \<Rightarrow> string \<Rightarrow> string" where
  "deleteText idx len b = take idx b @ drop (idx + len) b"

fun updateContents :: "delta \<Rightarrow> string \<Rightarrow> string" where
  "updateContents [] b = b"
| "updateContents (Retain n # d) b = take n b @ updateContents d (drop n b)"
| "updateContents (InsertOp t # d) b = t @ updateContents d b"
| "updateContents (DeleteOp n # d) b = updateContents d (drop n b)"

section \<open>Version counter, change log and subscribers\<close>

definition incrementVersion :: "'w doc \<Rightarrow> 'w doc" where
  "incrementVersion s = s\<lparr>version := version s + 1\<rparr>"

definition getChangesSince :: "nat \<Rightarrow> 'w doc \<Rightarrow> entry list" where
  "getChangesSince sinceVersion s = filter (\<lambda>c. e_version c > sinceVersion) (changeLog s)"

text \<open>\<open>Array.prototype.slice(-n)\<close>: the last \<open>n\<close> elements; \<open>slice(-0)\<close> is the whole array.\<close>

definition slice_last :: "nat \<Rightarrow> 'a list \<Rightarrow> 'a list" where
  "slice_last n xs = (if n = 0 then xs else drop (length xs - n) xs)"

text \<open>One turn of the \<open>forEach\<close> of \<open>notifySubscribers\<close>, with its \<open>try\<close>/\<open>catch\<close>.\<close>

definition notifyOne :: "entry \<Rightarrow> nat \<times> 'w callback \<Rightarrow> 'w doc \<Rightarrow> 'w doc" where
  "notifyOne e sub s =
     (case snd sub e (world s) of
        (threw, w') \<Rightarrow>
          s\<lparr> world := w',
             delivered := delivered s @ [(fst sub, e)],
             console := (if threw then console s @ [''[OTDocument] Subscriber error:'']
                         else console s) \<rparr>)"

definition notifySubscribers :: "entry \<Rightarrow> 'w doc \<Rightarrow> 'w doc" where
  "notifySubscribers e s = fold (notifyOne e) (changeSubscribers s) s"

definition logChange :: "nat \<Rightarrow> change \<Rightarrow> 'w doc \<Rightarrow> entry \<times> 'w doc" where
  "logChange now c s =
     (let e = \<lparr> change = c, e_version = version s, e_timestamp = now \<rparr>;
          log1 = changeLog s @ [e];
          log2 = (if length log1 > maxLogSize s then slice_last (maxLogSize s) log1 else log1)
      in (e, notifySubscribers e (s\<lparr>changeLog := log2\<rparr>)))"

definition subscribe :: "'w callback \<Rightarrow> 'w doc \<Rightarrow> nat \<times> 'w doc" where
  "subscribe cb s =
     (let subscriberId = subscriberCounter s + 1
      in (subscriberId,
          s\<lparr> subscriberCounter := subscriberId,
             changeSubscribers :=
               (if subscriberId \<in> fst ` set (changeSubscribers s)
                then map (\<lambda>p. if fst p = subscriberId then (subscriberId, cb) else p)
                       (changeSubscribers s)
                else changeSubscribers s @ [(subscriberId, cb)]) \<rparr>))"

definition unsubscribe :: "nat \<Rightarrow> 'w doc \<Rightarrow> bool \<times> 'w doc" where
  "unsubscribe subscriberId s =
     (subscriberId \<in> fst ` set (changeSubscribers s),
      s\<lparr>changeSubscribers := filter (\<lambda>p. fst p \<noteq> subscriberId) (changeSubscribers s)\<rparr>)"

text \<open>Registering a list of callbacks, one \<open>subscribe\<close> after the other.\<close>

fun subscribeAll :: "'w callback list \<Rightarrow> 'w doc \<Rightarrow> 'w doc" where
  "subscribeAll [] s = s"
| "subscribeAll (cb # cbs) s = subscribeAll cbs (snd (subscribe cb s))"

section \<open>Range locks\<close>

definition rangesOverlap :: "range \<Rightarrow> range \<Rightarrow> bool" where
  "rangesOverlap range1 range2 =
     (let end1 = index range1 + length_r range1;
          end2 = index range2 + length_r range2
      in index range1 < end2 \<and> index range2 < end1)"

text \<open>
  The loop of \<open>isRangeLocked\<close> over \<open>this.rangeLocks.entries()\<close>. An expired lock is
  deleted from the map and skipped; at the first live overlapping lock of another
  user the loop returns \<open>true\<close> and the rest of the map is left as it is.
\<close>

fun isRangeLocked_loop :: "nat \<Rightarrow> nat \<Rightarrow> nat \<Rightarrow> userId \<Rightarrow> lock list \<Rightarrow> bool \<times> lock list" where
  "isRangeLocked_loop now idx len uid [] = (False, [])"
| "isRangeLocked_loop now idx len uid (k # ks) =
     (if now > expiresAt k then isRangeLocked_loop now idx len uid ks
      else if l_userId k \<noteq> uid \<and>
              rangesOverlap \<lparr>index = idx, length_r = len\<rparr>
                \<lparr>index = index (l_range k), length_r = length_r (l_range k)\<rparr>
           then (True, k # ks)
      else (case isRangeLocked_loop now idx len uid ks of (b, ks') \<Rightarrow> (b, k # ks')))"

definition isRangeLocked :: "nat \<Rightarrow> nat \<Rightarrow> nat \<Rightarrow> userId \<Rightarrow> 'w doc \<Rightarrow> bool \<times> 'w doc" where
  "isRangeLocked now idx len uid s =
     (case isRangeLocked_loop now idx len uid (rangeLocks s) of
        (b, ks) \<Rightarrow> (b, s\<lparr>rangeLocks := ks\<rparr>))"

text \<open>The loop of \<open>lockRange\<close>: the first lock of another user that overlaps, expired or not.\<close>

definition lockRange_conflict :: "userId \<Rightarrow> nat \<Rightarrow> nat \<Rightarrow> lock list \<Rightarrow> lock option" where
  "lockRange_conflict uid idx len ks =
     find (\<lambda>k. rangesOverlap \<lparr>index = idx, length_r = len\<rparr>
                  \<lparr>index = index (l_range k), length_r = length_r (l_range k)\<rparr>
                \<and> l_userId k \<noteq> uid) ks"

definition lockRange :: "nat \<Rightarrow> userId \<Rightarrow> nat \<Rightarrow> nat \<Rightarrow> nat \<Rightarrow> 'w doc \<Rightarrow> (lock, 'w doc) outcome" where
  "lockRange now uid idx len duration s =
     (case lockRange_conflict uid idx len (rangeLocks s) of
        Some k \<Rightarrow> Threw (RangeAlreadyLocked (l_userId k)) s
      | None \<Rightarrow>
          (let lid = lockCounter s + 1;
               lk = \<lparr> lockId = lid, l_userId = uid,
                      l_range = \<lparr>index = idx, length_r = len\<rparr>,
                      l_timestamp = now, expiresAt = now + duration \<rparr>
           in Returned lk
                (s\<lparr> lockCounter := lid,
                   rangeLocks :=
                     (if lid \<in> lockId ` set (rangeLocks s)
                      then map (\<lambda>k. if lockId k = lid then lk else k) (rangeLocks s)
                      else rangeLocks s @ [lk]),
                   timers := timers s @ [\<lparr>due = now + duration, t_lockId = lid, t_userId = uid\<rparr>] \<rparr>)))"

text \<open>\<open>unlockRange\<close> returns \<open>{success: false}\<close> for an unknown id and throws for a foreign lock.\<close>

definition unlockRange :: "nat \<Rightarrow> userId \<Rightarrow> 'w doc \<Rightarrow> (bool, 'w doc) outcome" where
  "unlockRange lid uid s =
     (case find (\<lambda>k. lockId k = lid) (rangeLocks s) of
        None \<Rightarrow> Returned False s
      | Some k \<Rightarrow>
          if l_userId k \<noteq> uid then Threw CannotUnlock s
          else Returned True (s\<lparr>rangeLocks := filter (\<lambda>k. lockId k \<noteq> lid) (rangeLocks s)\<rparr>))"

text \<open>The timer of \<open>lockRange\<close> firing: the callback runs \<open>unlockRange\<close> and is gone.\<close>

definition fireTimer :: "timer \<Rightarrow> 'w doc \<Rightarrow> 'w doc" where
  "fireTimer t s =
     final (unlockRange (t_lockId t) (t_userId t) (s\<lparr>timers := remove1 t (timers s)\<rparr>))"

section \<open>Mutation primitives\<close>

definition transformIndex :: "nat \<Rightarrow> nat" where
  "transformIndex idx = idx"

definition insertAt :: "nat \<Rightarrow> nat \<Rightarrow> string \<Rightarrow> userId \<Rightarrow> attributes \<Rightarrow> 'w doc \<Rightarrow> (entry, 'w doc) outcome" where
  "insertAt now idx text uid attrs s =
     (case isRangeLocked now idx (length text) uid s of
        (True, s1) \<Rightarrow> Threw RangeLocked s1
      | (False, s1) \<Rightarrow>
          (let transformedIndex = transformIndex idx;
               s2 = s1\<lparr>quill := insertText transformedIndex text (quill s1)\<rparr>;
               s3 = incrementVersion s2
           in case logChange now (ChInsert uid transformedIndex text attrs) s3 of
                (e, s4) \<Rightarrow> Returned e s4))"

definition deleteRange :: "nat \<Rightarrow> nat \<Rightarrow> nat \<Rightarrow> userId \<Rightarrow> 'w doc \<Rightarrow> (entry, 'w doc) outcome" where
  "deleteRange now idx len uid s =
     (case isRangeLocked now idx len uid s of
        (True, s1) \<Rightarrow> Threw RangeLocked s1
      | (False, s1) \<Rightarrow>
          (let transformedIndex = transformIndex idx;
               s2 = s1\<lparr>quill := deleteText transformedIndex len (quill s1)\<rparr>;
               s3 = incrementVersion s2
           in case logChange now (ChDelete uid transformedIndex len) s3 of
                (e, s4) \<Rightarrow> Returned e s4))"

definition replaceRange :: "nat \<Rightarrow> nat \<Rightarrow> nat \<Rightarrow> string \<Rightarrow> userId \<Rightarrow> attributes \<Rightarrow> 'w doc \<Rightarrow> (entry, 'w doc) outcome" where
  "replaceRange now idx len text uid attrs s =
     (case isRangeLocked now idx len uid s of
        (True, s1) \<Rightarrow> Threw RangeLocked s1
      | (False, s1) \<Rightarrow>
          (let transformedIndex = transformIndex idx;
               s2 = s1\<lparr>quill := deleteText transformedIndex len (quill s1)\<rparr>;
               s3 = s2\<lparr>quill := insertText transformedIndex text (quill s2)\<rparr>;
               s4 = incrementVersion s3
           in case logChange now (ChReplace uid transformedIndex len text attrs) s4 of
                (e, s5) \<Rightarrow> Returned e s5))"

definition applyDelta :: "nat \<Rightarrow> delta \<Rightarrow> userId \<Rightarrow> 'w doc \<Rightarrow> (entry, 'w doc) outcome" where
  "applyDelta now d uid s =
     (let s1 = s\<lparr>quill := updateContents d (quill s)\<rparr>;
          s2 = incrementVersion s1
      in case logChange now (ChDelta uid d) s2 of (e, s3) \<Rightarrow> Returned e s3)"

text \<open>
  \<open>handleTextChange\<close> is the editor's \<open>text-change\<close> listener. The primitives above edit
  through the editor's API, whose events carry the source \<open>api\<close>; only an edit typed
  by the user (source \<open>user\<close>) is logged here.
\<close>

definition handleTextChange :: "nat \<Rightarrow> delta \<Rightarrow> string \<Rightarrow> 'w doc \<Rightarrow> 'w doc" where
  "handleTextChange now d source s =
     (if source = ''user''
      then snd (logChange now (ChExternal ''system'' d source) (incrementVersion s))
      else s)"

section \<open>Suggestions\<close>

definition getRangeText :: "nat \<Rightarrow> nat \<Rightarrow> 'w doc \<Rightarrow> string" where
  "getRangeText idx len s = getText idx len (quill s)"

text \<open>\<open>Map.get\<close> and the in-place update of the object a \<open>Map\<close> entry refers to.\<close>

definition getSuggestion :: "nat \<Rightarrow> 'w doc \<Rightarrow> suggestion option" where
  "getSuggestion sid s = find (\<lambda>g. suggestionId g = sid) (suggestions s)"

definition setSuggestion :: "nat \<Rightarrow> suggestion \<Rightarrow> 'w doc \<Rightarrow> 'w doc" where
  "setSuggestion sid g s =
     s\<lparr>suggestions := map (\<lambda>h. if suggestionId h = sid then g else h) (suggestions s)\<rparr>"

definition suggestEdit :: "nat \<Rightarrow> userId \<Rightarrow> nat \<Rightarrow> nat \<Rightarrow> string \<Rightarrow> metadata \<Rightarrow> 'w doc \<Rightarrow> suggestion \<times> 'w doc" where
  "suggestEdit now uid idx len text meta s =
     (let sid = suggestionCounter s + 1;
          g = \<lparr> suggestionId = sid, g_userId = uid,
                g_range = \<lparr>index = idx, length_r = len\<rparr>,
                newText = text, oldText = getRangeText idx len s,
                status = Pending, g_metadata = meta, createdAt = now,
                acceptedBy = None, acceptedAt = None,
                rejectedBy = None, rejectedAt = None, rejectionReason = None \<rparr>
      in (g, s\<lparr> suggestionCounter := sid,
                suggestions :=
                  (if sid \<in> suggestionId ` set (suggestions s)
                   then map (\<lambda>h. if suggestionId h = sid then g else h) (suggestions s)
                   else suggestions s @ [g]) \<rparr>))"

definition acceptSuggestion :: "nat \<Rightarrow> nat \<Rightarrow> userId \<Rightarrow> 'w doc \<Rightarrow> (suggestion, 'w doc) outcome" where
  "acceptSuggestion now sid acceptingUserId s =
     (case getSuggestion sid s of
        None \<Rightarrow> Threw SuggestionNotFound s
      | Some g \<Rightarrow>
          if status g \<noteq> Pending then Threw (SuggestionAlready (status g)) s
          else
            (case replaceRange now (index (g_range g)) (length_r (g_range g)) (newText g)
                    acceptingUserId [] s of
               Threw e s1 \<Rightarrow> Threw e s1
             | Returned _ s1 \<Rightarrow>
                 (let g' = g\<lparr> status := Accepted, acceptedBy := Some acceptingUserId,
                              acceptedAt := Some now \<rparr>
                  in Returned g' (setSuggestion sid g' s1))))"

definition rejectSuggestion :: "nat \<Rightarrow> nat \<Rightarrow> userId \<Rightarrow> string \<Rightarrow> 'w doc \<Rightarrow> (suggestion, 'w doc) outcome" where
  "rejectSuggestion now sid rejectingUserId reason s =
     (case getSuggestion sid s of
        None \<Rightarrow> Threw SuggestionNotFound s
      | Some g \<Rightarrow>
          (let g' = g\<lparr> status := Rejected, rejectedBy := Some rejectingUserId,
                       rejectedAt := Some now, rejectionReason := Some reason \<rparr>
           in Returned g' (setSuggestion sid g' s)))"

section \<open>Quick corrections\<close>

definition getCorrection :: "nat \<Rightarrow> 'w doc \<Rightarrow> correction option" where
  "getCorrection cid s = find (\<lambda>c. correctionId c = cid) (corrections s)"

definition setCorrection :: "nat \<Rightarrow> correction \<Rightarrow> 'w doc \<Rightarrow> 'w doc" where
  "setCorrection cid c s =
     s\<lparr>corrections := map (\<lambda>h. if correctionId h = cid then c else h) (corrections s)\<rparr>"

text \<open>
  \<open>applyQuickCorrection\<close> takes its id first, then deletes and inserts; either
  primitive may throw, and then the call ends there. The store keeps 100 records:
  one more and the first key of the \<open>Map\<close> is deleted.
\<close>

definition applyQuickCorrection ::
  "nat \<Rightarrow> userId \<Rightarrow> nat \<Rightarrow> nat \<Rightarrow> string \<Rightarrow> string \<Rightarrow> string list \<Rightarrow> metadata \<Rightarrow> 'w doc
     \<Rightarrow> (correction, 'w doc) outcome" where
  "applyQuickCorrection now uid idx len orig corr alts meta s =
     (let cid = correctionCounter s + 1;
          s0 = s\<lparr>correctionCounter := cid\<rparr>
      in case deleteRange now idx len uid s0 of
           Threw e s1 \<Rightarrow> Threw e s1
         | Returned _ s1 \<Rightarrow>
             (case insertAt now idx corr uid [] s1 of
                Threw e s2 \<Rightarrow> Threw e s2
              | Returned _ s2 \<Rightarrow>
                  (let c = \<lparr> correctionId = cid, c_userId = uid,
                             c_range = \<lparr>index = idx, length_r = length corr\<rparr>,
                             original = orig, applied = corr, alternates = alts,
                             c_metadata = meta, c_timestamp = now, c_version = version s2,
                             reverted = False, revertedBy = None, revertedAt = None \<rparr>;
                       cs1 = (if cid \<in> correctionId ` set (corrections s2)
                              then map (\<lambda>h. if correctionId h = cid then c else h) (corrections s2)
                              else corrections s2 @ [c]);
                       cs2 = (if length cs1 > 100 then tl cs1 else cs1)
                   in Returned c (s2\<lparr>corrections := cs2\<rparr>))))"

text \<open>What \<open>revertCorrection\<close> returns.\<close>

record revert_result =
  rr_correctionId :: nat
  rr_reverted :: bool
  originalText :: string
  rr_version :: nat

definition revertCorrection :: "nat \<Rightarrow> nat \<Rightarrow> userId \<Rightarrow> 'w doc \<Rightarrow> (revert_result, 'w doc) outcome" where
  "revertCorrection now cid uid s =
     (case getCorrection cid s of
        None \<Rightarrow> Threw (CorrectionNotFound cid) s
      | Some c \<Rightarrow>
          (case deleteRange now (index (c_range c)) (length_r (c_range c)) uid s of
             Threw e s1 \<Rightarrow> Threw e s1
           | Returned _ s1 \<Rightarrow>
               (case insertAt now (index (c_range c)) (original c) uid [] s1 of
                  Threw e s2 \<Rightarrow> Threw e s2
                | Returned _ s2 \<Rightarrow>
                    (let c' = c\<lparr> reverted := True, revertedBy := Some uid,
                                 revertedAt := Some now \<rparr>
                     in Returned \<lparr> rr_correctionId = cid, rr_reverted = True,
                                   originalText = original c, rr_version = version s2 \<rparr>
                          (setCorrection cid c' s2)))))"

section \<open>Transactions\<close>

text \<open>
  The transaction object is shared by \<open>currentTransaction\<close> and the element of
  \<open>transactionStack\<close> pushed by \<open>beginTransaction\<close>, the last one while the transaction
  is open, so a field written at commit or rollback shows in both.
\<close>

definition beginTransaction :: "nat \<Rightarrow> userId \<Rightarrow> 'w doc \<Rightarrow> (transaction, 'w doc) outcome" where
  "beginTransaction now uid s =
     (case currentTransaction s of
        Some _ \<Rightarrow> Threw TransactionInProgress s
      | None \<Rightarrow>
          (let t = \<lparr> x_userId = uid, startVersion = version s, changes = [],
                     startedAt = now, committedAt = None, endVersion = None,
                     rolledBack = False, rolledBackAt = None \<rparr>
           in Returned t (s\<lparr> currentTransaction := Some t,
                             transactionStack := transactionStack s @ [t] \<rparr>)))"

definition commitTransaction :: "nat \<Rightarrow> 'w doc \<Rightarrow> (transaction, 'w doc) outcome" where
  "commitTransaction now s =
     (case currentTransaction s of
        None \<Rightarrow> Threw NoTransaction s
      | Some t \<Rightarrow>
          (let t' = t\<lparr>committedAt := Some now, endVersion := Some (version s)\<rparr>
           in Returned t' (s\<lparr> currentTransaction := None,
                              transactionStack := butlast (transactionStack s) @ [t'] \<rparr>)))"

definition rollbackTransaction :: "nat \<Rightarrow> 'w doc \<Rightarrow> (transaction, 'w doc) outcome" where
  "rollbackTransaction now s =
     (case currentTransaction s of
        None \<Rightarrow> Threw NoTransaction s
      | Some t \<Rightarrow>
          (let t' = t\<lparr>rolledBack := True, rolledBackAt := Some now\<rparr>
           in Returned t' (s\<lparr> currentTransaction := None,
                              transactionStack := butlast (transactionStack s) @ [t'],
                              console := console s @ [''[OTDocument] Transaction rollback is simplified''] \<rparr>)))"

section \<open>Sequences of mutation-primitive calls\<close>

text \<open>
  A call of one of the four mutation primitives, without its user. \<open>perform\<close> makes the
  call. \<open>run_calls\<close> makes a list of calls, each at its own time and by its own user,
  going on after a call that threw, and counts the calls that returned.
\<close>

datatype call =
    InsertAt nat string attributes
  | DeleteRange nat nat
  | ReplaceRange nat nat string attributes
  | ApplyDelta delta

fun perform :: "nat \<Rightarrow> call \<Rightarrow> userId \<Rightarrow> 'w doc \<Rightarrow> (entry, 'w doc) outcome" where
  "perform now (InsertAt idx text attrs) uid s = insertAt now idx text uid attrs s"
| "perform now (DeleteRange idx len) uid s = deleteRange now idx len uid s"
| "perform now (ReplaceRange idx len text attrs) uid s = replaceRange now idx len text uid attrs s"
| "perform now (ApplyDelta d) uid s = applyDelta now d uid s"

text \<open>The range a primitive hands to \<open>isRangeLocked\<close>; \<open>applyDelta\<close> asks for no lock.\<close>

fun checkedRange :: "call \<Rightarrow> range option" where
  "checkedRange (InsertAt idx text attrs) = Some \<lparr>index = idx, length_r = length text\<rparr>"
| "checkedRange (DeleteRange idx len) = Some \<lparr>index = idx, length_r = len\<rparr>"
| "checkedRange (ReplaceRange idx len text attrs) = Some \<lparr>index = idx, length_r = len\<rparr>"
| "checkedRange (ApplyDelta d) = None"

fun run_calls :: "(nat \<times> userId \<times> call) list \<Rightarrow> 'w doc \<Rightarrow> nat \<times> 'w doc" where
  "run_calls [] s = (0, s)"
| "run_calls ((now, uid, c) # cs) s =
     (case perform now c uid s of
        Threw e s1 \<Rightarrow> run_calls cs s1
      | Returned r s1 \<Rightarrow> (case run_calls cs s1 of (n, s2) \<Rightarrow> (Suc n, s2)))"

section \<open>The director side of the control bus\<close>
















section \<open>Example documents\<close>

definition ex_locked :: "unit doc" where
  "ex_locked =
     snd (suggestEdit 2 ''llm-agent'' 10 8 ''better text'' []
       (final (lockRange 1 ''user1'' 10 20 60000 (newDoc ''Sample document text'' ''test-doc-123'' ()))))"

definition ex_two_locks :: "unit doc" where
  "ex_two_locks =
     final (lockRange 1 ''userC'' 40 10 60000
       (final (lockRange 0 ''userA'' 10 20 60000 (newDoc ''Sample document text'' ''test-doc-123'' ()))))"

definition ex_one_lock :: "unit doc" where
  "ex_one_lock =
     final (lockRange 0 ''userA'' 10 20 60000 (newDoc ''Sample document text'' ''test-doc-123'' ()))"

definition ex_suggested :: "unit doc" where
  "ex_suggested =
     snd (suggestEdit 2 ''llm-agent'' 10 8 ''better text'' []
       (newDoc ''Sample document text'' ''test-doc-123'' ()))"

definition ex_in_transaction :: "unit doc" where
  "ex_in_transaction =
     final (insertAt 3 6 ''B'' ''user1'' []
       (final (insertAt 2 5 ''A'' ''user1'' []
         (final (beginTransaction 1 ''user1'' (newDoc ''Sample document text'' ''test-doc-123'' ()))))))"

definition ex_expired_lock :: "unit doc" where
  "ex_expired_lock =
     final (lockRange 0 ''userA'' 10 20 1000 (newDoc ''Sample document text'' ''test-doc-123'' ()))"


definition ex_corrected :: "unit doc" where
  "ex_corrected =
     final (applyQuickCorrection 1 ''spell-bot'' 2 10 ''similarley'' ''similarly'' [''similarity''] []
       (newDoc ''x similarley y'' ''test-doc-123'' ()))"

definition ex_reverted :: "unit doc" where
  "ex_reverted = final (revertCorrection 2 1 ''user1'' ex_corrected)"

text \<open>
  Two kinds of subscriber over a world that lists what was received: one notes its
  own number and the version of the entry it was handed, the other throws.
\<close>

definition cb_record :: "nat \<Rightarrow> (nat \<times> nat) list callback" where
  "cb_record n = (\<lambda>e w. (False, w @ [(n, e_version e)]))"

definition cb_throw :: "(nat \<times> nat) list callback" where
  "cb_throw = (\<lambda>e w. (True, w))"

definition ex_subscribed :: "(nat \<times> nat) list doc" where
  "ex_subscribed =
     subscribeAll [cb_record 1, cb_throw, cb_record 3]
       (newDoc ''Sample document text'' ''test-doc-123'' [])"

section \<open>Frame lemmas\<close>

lemmas eval_defs =
  newDoc_def lockRange_def lockRange_conflict_def suggestEdit_def getRangeText_def getText_def
  insertAt_def deleteRange_def replaceRange_def applyDelta_def isRangeLocked_def
  transformIndex_def incrementVersion_def logChange_def notifySubscribers_def notifyOne_def
  slice_last_def insertText_def deleteText_def rangesOverlap_def Let_def
  applyQuickCorrection_def beginTransaction_def commitTransaction_def rollbackTransaction_def
  getChangesSince_def

text \<open>Notifying subscribers changes the world, the trace and the console, nothing else.\<close>

lemma fold_notifyOne_frame:
  "quill (fold (notifyOne e) subs s) = quill s \<and>
   version (fold (notifyOne e) subs s) = version s \<and>
   changeLog (fold (notifyOne e) subs s) = changeLog s \<and>
   rangeLocks (fold (notifyOne e) subs s) = rangeLocks s \<and>
   suggestions (fold (notifyOne e) subs s) = suggestions s \<and>
   corrections (fold (notifyOne e) subs s) = corrections s \<and>
   currentTransaction (fold (notifyOne e) subs s) = currentTransaction s \<and>
   changeSubscribers (fold (notifyOne e) subs s) = changeSubscribers s"
  by (induction subs arbitrary: s) (auto simp: notifyOne_def split: prod.splits)

lemma notifySubscribers_frame:
  "quill (notifySubscribers e s) = quill s"
  "version (notifySubscribers e s) = version s"
  "changeLog (notifySubscribers e s) = changeLog s"
  "rangeLocks (notifySubscribers e s) = rangeLocks s"
  "suggestions (notifySubscribers e s) = suggestions s"
  "corrections (notifySubscribers e s) = corrections s"
  "currentTransaction (notifySubscribers e s) = currentTransaction s"
  "changeSubscribers (notifySubscribers e s) = changeSubscribers s"
  by (simp_all add: notifySubscribers_def fold_notifyOne_frame)

lemma fold_notifyOne_delivered:
  "delivered (fold (notifyOne e) subs s) = delivered s @ map (\<lambda>p. (fst p, e)) subs"
  by (induction subs arbitrary: s) (auto simp: notifyOne_def split: prod.splits)

lemma logChange_frame:
  "quill (snd (logChange now c s)) = quill s"
  "version (snd (logChange now c s)) = version s"
  "rangeLocks (snd (logChange now c s)) = rangeLocks s"
  "suggestions (snd (logChange now c s)) = suggestions s"
  "corrections (snd (logChange now c s)) = corrections s"
  "currentTransaction (snd (logChange now c s)) = currentTransaction s"
  "changeSubscribers (snd (logChange now c s)) = changeSubscribers s"
  by (simp_all add: logChange_def Let_def notifySubscribers_frame)

lemma isRangeLocked_frame:
  "quill (snd (isRangeLocked now i l u s)) = quill s"
  "version (snd (isRangeLocked now i l u s)) = version s"
  "changeLog (snd (isRangeLocked now i l u s)) = changeLog s"
  "suggestions (snd (isRangeLocked now i l u s)) = suggestions s"
  "corrections (snd (isRangeLocked now i l u s)) = corrections s"
  "currentTransaction (snd (isRangeLocked now i l u s)) = currentTransaction s"
  "changeSubscribers (snd (isRangeLocked now i l u s)) = changeSubscribers s"
  by (simp_all add: isRangeLocked_def split: prod.splits)


lemma insertAt_Threw:
  "fst (isRangeLocked now i (length t) u s) \<Longrightarrow>
   insertAt now i t u a s = Threw RangeLocked (snd (isRangeLocked now i (length t) u s))"
  by (cases "isRangeLocked now i (length t) u s") (simp add: insertAt_def)

lemma insertAt_Returned:
  "\<not> fst (isRangeLocked now i (length t) u s) \<Longrightarrow>
   insertAt now i t u a s =
     Returned (fst (logChange now (ChInsert u i t a)
                 (incrementVersion ((snd (isRangeLocked now i (length t) u s))
                     \<lparr>quill := insertText i t (quill s)\<rparr>))))
             (snd (logChange now (ChInsert u i t a)
                 (incrementVersion ((snd (isRangeLocked now i (length t) u s))
                     \<lparr>quill := insertText i t (quill s)\<rparr>))))"
  by (cases "isRangeLocked now i (length t) u s")
     (simp add: insertAt_def transformIndex_def Let_def isRangeLocked_def split: prod.splits)

lemma deleteRange_Threw:
  "fst (isRangeLocked now i l u s) \<Longrightarrow>
   deleteRange now i l u s = Threw RangeLocked (snd (isRangeLocked now i l u s))"
  by (cases "isRangeLocked now i l u s") (simp add: deleteRange_def)

lemma deleteRange_Returned:
  "\<not> fst (isRangeLocked now i l u s) \<Longrightarrow>
   deleteRange now i l u s =
     Returned (fst (logChange now (ChDelete u i l)
                 (incrementVersion ((snd (isRangeLocked now i l u s))
                     \<lparr>quill := deleteText i l (quill s)\<rparr>))))
             (snd (logChange now (ChDelete u i l)
                 (incrementVersion ((snd (isRangeLocked now i l u s))
                     \<lparr>quill := deleteText i l (quill s)\<rparr>))))"
  by (cases "isRangeLocked now i l u s")
     (simp add: deleteRange_def transformIndex_def Let_def isRangeLocked_def split: prod.splits)

lemma replaceRange_Threw:
  "fst (isRangeLocked now i l u s) \<Longrightarrow>
   replaceRange now i l t u a s = Threw RangeLocked (snd (isRangeLocked now i l u s))"
  by (cases "isRangeLocked now i l u s") (simp add: replaceRange_def)

lemma replaceRange_Returned:
  "\<not> fst (isRangeLocked now i l u s) \<Longrightarrow>
   replaceRange now i l t u a s =
     Returned (fst (logChange now (ChReplace u i l t a)
                 (incrementVersion ((snd (isRangeLocked now i l u s))
                     \<lparr>quill := insertText i t (deleteText i l (quill s))\<rparr>))))
             (snd (logChange now (ChReplace u i l t a)
                 (incrementVersion ((snd (isRangeLocked now i l u s))
                     \<lparr>quill := insertText i t (deleteText i l (quill s))\<rparr>))))"
  by (cases "isRangeLocked now i l u s")
     (simp add: replaceRange_def transformIndex_def Let_def isRangeLocked_def split: prod.splits)

lemma range_eta: "\<lparr>index = index r, length_r = length_r r\<rparr> = (r::range)"
  by simp

lemma isRangeLocked_loop_iff:
  "fst (isRangeLocked_loop now i l u ks) \<longleftrightarrow>
     (\<exists>k \<in> set ks. \<not> now > expiresAt k \<and> l_userId k \<noteq> u \<and>
        rangesOverlap \<lparr>index = i, length_r = l\<rparr> (l_range k))"
  by (induction ks) (auto simp: range_eta split: prod.splits)

lemma isRangeLocked_loop_subset:
  "set (snd (isRangeLocked_loop now i l u ks)) \<subseteq> set ks"
  by (induction ks) (auto split: prod.splits)

lemma applyDelta_Returned:
  "applyDelta now d u s =
     Returned (fst (logChange now (ChDelta u d)
                 (incrementVersion (s\<lparr>quill := updateContents d (quill s)\<rparr>))))
             (snd (logChange now (ChDelta u d)
                 (incrementVersion (s\<lparr>quill := updateContents d (quill s)\<rparr>))))"
  by (simp add: applyDelta_def Let_def split: prod.splits)

lemma perform_version:
  "version (final (perform now c u s)) =
     (if is_Returned (perform now c u s) then version s + 1 else version s)"
proof (cases c)
  case (InsertAt i t a)
  then show ?thesis
    by (cases "fst (isRangeLocked now i (length t) u s)")
       (simp_all add: insertAt_Threw insertAt_Returned logChange_frame isRangeLocked_frame
          incrementVersion_def)
next
  case (DeleteRange i l)
  then show ?thesis
    by (cases "fst (isRangeLocked now i l u s)")
       (simp_all add: deleteRange_Threw deleteRange_Returned logChange_frame isRangeLocked_frame
          incrementVersion_def)
next
  case (ReplaceRange i l t a)
  then show ?thesis
    by (cases "fst (isRangeLocked now i l u s)")
       (simp_all add: replaceRange_Threw replaceRange_Returned logChange_frame isRangeLocked_frame
          incrementVersion_def)
next
  case (ApplyDelta d)
  then show ?thesis
    by (simp add: applyDelta_Returned logChange_frame incrementVersion_def)
qed

section \<open>The version counts the mutations\<close>

text \<open>
  Claim C6. Each mutation-primitive call that returns (\<open>insertAt\<close>, \<open>deleteRange\<close>,
  \<open>replaceRange\<close>, \<open>applyDelta\<close>) raises the version by exactly one and a call that throws
  leaves it alone: after any sequence of calls the version is the version before plus
  the number \<open>N\<close> of calls that returned, so it never decreases. This holds in every
  state, in particular when no transaction is open.
\<close>

theorem version_after_calls:
  "version (snd (run_calls cs s)) = version s + fst (run_calls cs s) \<and>
   version s \<le> version (snd (run_calls cs s))"
proof (induction cs arbitrary: s)
  case Nil
  show ?case by simp
next
  case (Cons x cs)
  obtain now u c where x: "x = (now, u, c)" by (cases x) auto
  show ?case
  proof (cases "perform now c u s")
    case (Threw e s1)
    with perform_version [of now c u s] have "version s1 = version s" by simp
    with Cons.IH [of s1] Threw x show ?thesis by simp
  next
    case (Returned r s1)
    with perform_version [of now c u s] have "version s1 = version s + 1" by simp
    with Cons.IH [of s1] Returned x show ?thesis
      by (cases "run_calls cs s1") simp
  qed
qed

section \<open>Delivery to subscribers\<close>

lemma last_slice_last: "last (slice_last n (xs @ [e])) = e"
  by (simp add: slice_last_def)

text \<open>
  The loop of \<open>notifySubscribers\<close> applies every callback of the list to the entry, in
  the order of the list, each to the world the one before it left behind; whether
  a callback threw has no part in what the next ones are given.
\<close>

lemma fold_notifyOne_world:
  "world (fold (notifyOne e) subs s) = fold (\<lambda>sub w. snd (snd sub e w)) subs (world s)"
  by (induction subs arbitrary: s) (auto simp: notifyOne_def split: prod.splits)

text \<open>
  The order of the list is the order of registration. In a document whose
  subscriber ids do not exceed the counter, as in every document built by the
  operations, \<open>subscribe\<close> puts the callback under a fresh id at the end of the list.
\<close>

lemma subscribe_appends:
  assumes "\<forall>p \<in> set (changeSubscribers s). fst p \<le> subscriberCounter s"
  shows "changeSubscribers (snd (subscribe cb s)) =
           changeSubscribers s @ [(subscriberCounter s + 1, cb)]"
    and "\<forall>p \<in> set (changeSubscribers (snd (subscribe cb s))).
           fst p \<le> subscriberCounter (snd (subscribe cb s))"
    and "world (snd (subscribe cb s)) = world s"
proof -
  from assms have "subscriberCounter s + 1 \<notin> fst ` set (changeSubscribers s)"
    by fastforce
  then show "changeSubscribers (snd (subscribe cb s)) =
           changeSubscribers s @ [(subscriberCounter s + 1, cb)]"
    by (simp add: subscribe_def Let_def)
  then show "\<forall>p \<in> set (changeSubscribers (snd (subscribe cb s))).
           fst p \<le> subscriberCounter (snd (subscribe cb s))"
    using assms by (fastforce simp: subscribe_def Let_def)
  show "world (snd (subscribe cb s)) = world s"
    by (simp add: subscribe_def Let_def)
qed

lemma subscribeAll_order:
  assumes "\<forall>p \<in> set (changeSubscribers s). fst p \<le> subscriberCounter s"
  shows "map snd (changeSubscribers (subscribeAll cbs s)) = map snd (changeSubscribers s) @ cbs"
    and "world (subscribeAll cbs s) = world s"
  using assms
proof (induction cbs arbitrary: s)
  case Nil
  { case 1 show ?case by simp }
  { case 2 show ?case by simp }
next
  case (Cons cb cbs)
  { case 1
    with Cons.IH(1) [of "snd (subscribe cb s)"] subscribe_appends [of s cb]
    show ?case by simp }
  { case 2
    with Cons.IH(2) [of "snd (subscribe cb s)"] subscribe_appends [of s cb]
    show ?case by simp }
qed

text \<open>
  Claim C7. \<open>logChange\<close> stores the entry, stamped with the current version, as the last
  element of the log and then hands it to every subscriber, once each and in the
  order of registration: the world after the call is the world before it with
  every callback applied to the entry in turn, none left out and none after a
  throwing one skipped. A callback that throws costs a line on the console and the
  loop goes on to the next subscriber.
\<close>

theorem logChange_delivers_to_all:
  "fst (logChange now c s) = \<lparr>change = c, e_version = version s, e_timestamp = now\<rparr> \<and>
   last (changeLog (snd (logChange now c s))) = fst (logChange now c s) \<and>
   changeLog (snd (logChange now c s)) \<noteq> [] \<and>
   world (snd (logChange now c s)) =
     fold (\<lambda>sub w. snd (snd sub (fst (logChange now c s)) w)) (changeSubscribers s) (world s) \<and>
   delivered (snd (logChange now c s)) =
     delivered s @ map (\<lambda>sub. (fst sub, fst (logChange now c s))) (changeSubscribers s)"
  by (simp add: logChange_def Let_def notifySubscribers_def fold_notifyOne_frame
        fold_notifyOne_delivered fold_notifyOne_world last_slice_last slice_last_def)

text \<open>
  Three subscribers are registered in turn on a fresh document and the second one
  throws. A change logged at version 0 reaches the first and the third, in that
  order, and stands in the log.
\<close>

lemma ex_subscribed_subscribers:
  "changeSubscribers ex_subscribed = [(1, cb_record 1), (2, cb_throw), (3, cb_record 3)]"
  "world ex_subscribed = []" "version ex_subscribed = 0" "changeLog ex_subscribed = []"
  "maxLogSize ex_subscribed = 1000"
  by (simp_all add: ex_subscribed_def subscribe_def newDoc_def Let_def)

theorem logChange_delivers_to_all_witness:
  "map fst (changeSubscribers ex_subscribed) = [1, 2, 3] \<and>
   fst (cb_throw (fst (logChange 5 (ChInsert ''user1'' 0 ''Hello'' []) ex_subscribed)) []) \<and>
   world (snd (logChange 5 (ChInsert ''user1'' 0 ''Hello'' []) ex_subscribed)) = [(1, 0), (3, 0)] \<and>
   changeLog (snd (logChange 5 (ChInsert ''user1'' 0 ''Hello'' []) ex_subscribed)) =
     [\<lparr>change = ChInsert ''user1'' 0 ''Hello'' [], e_version = 0, e_timestamp = 5\<rparr>]"
proof -
  let ?c = "ChInsert ''user1'' 0 ''Hello'' []"
  let ?e = "\<lparr>change = ?c, e_version = 0, e_timestamp = 5\<rparr>"
  note T = logChange_delivers_to_all [of 5 ?c ex_subscribed]
  from T have e: "fst (logChange 5 ?c ex_subscribed) = ?e"
    by (simp only: ex_subscribed_subscribers(3))
  from T have "world (snd (logChange 5 ?c ex_subscribed)) =
      fold (\<lambda>sub w. snd (snd sub (fst (logChange 5 ?c ex_subscribed)) w))
        (changeSubscribers ex_subscribed) (world ex_subscribed)"
    by blast
  also have "\<dots> = [(1, 0), (3, 0)]"
    unfolding e ex_subscribed_subscribers(1,2) by (simp add: cb_record_def cb_throw_def)
  finally have w: "world (snd (logChange 5 ?c ex_subscribed)) = [(1, 0), (3, 0)]" .
  have l: "changeLog (snd (logChange 5 ?c ex_subscribed)) = [?e]"
    by (simp add: logChange_def Let_def notifySubscribers_def fold_notifyOne_frame
          ex_subscribed_subscribers(3-5))
  have m: "map fst (changeSubscribers ex_subscribed) = [1, 2, 3]"
    unfolding ex_subscribed_subscribers(1) by simp
  have t: "fst (cb_throw (fst (logChange 5 ?c ex_subscribed)) [])"
    by (simp add: cb_throw_def)
  from m t w l show ?thesis by blast
qed

section \<open>Range locks and the mutation primitives\<close>

text \<open>
  \<open>isRangeLocked\<close> answers \<open>true\<close> exactly when some lock in the table is not expired,
  belongs to another user and overlaps the range asked about.
\<close>

lemma isRangeLocked_fst:
  "fst (isRangeLocked now i l u s) = fst (isRangeLocked_loop now i l u (rangeLocks s))"
  by (cases "isRangeLocked_loop now i l u (rangeLocks s)") (simp add: isRangeLocked_def)

lemma isRangeLocked_snd:
  "snd (isRangeLocked now i l u s) = s\<lparr>rangeLocks := snd (isRangeLocked_loop now i l u (rangeLocks s))\<rparr>"
  by (cases "isRangeLocked_loop now i l u (rangeLocks s)") (simp add: isRangeLocked_def)

lemma isRangeLocked_iff:
  "fst (isRangeLocked now i l u s) \<longleftrightarrow>
     (\<exists>k \<in> set (rangeLocks s). \<not> now > expiresAt k \<and> l_userId k \<noteq> u \<and>
        rangesOverlap \<lparr>index = i, length_r = l\<rparr> (l_range k))"
  by (simp only: isRangeLocked_fst isRangeLocked_loop_iff)

lemma isRangeLocked_blocked:
  assumes "k \<in> set (rangeLocks s)" "\<not> now > expiresAt k" "l_userId k \<noteq> u"
    "rangesOverlap \<lparr>index = i, length_r = l\<rparr> (l_range k)"
  shows "fst (isRangeLocked now i l u s)"
  unfolding isRangeLocked_iff using assms by blast

text \<open>
  Claim C10. Let \<open>g\<close> be a pending suggestion and let a lock that has not expired, held
  by a user other than the accepting user \<open>u\<close>, overlap its range. Then
  \<open>acceptSuggestion\<close> throws the range-locked error of \<open>replaceRange\<close> before it writes
  to the record: the stored suggestions are what they were, so \<open>g\<close> is still pending
  with no \<open>acceptedBy\<close> and \<open>acceptedAt\<close>, and buffer, version and change log are
  untouched. The accept can therefore be tried again once the lock is gone.
\<close>

theorem accept_locked_keeps_pending:
  assumes "getSuggestion sid s = Some g" and "status g = Pending"
    and "k \<in> set (rangeLocks s)" and "\<not> now > expiresAt k" and "l_userId k \<noteq> u"
    and "rangesOverlap (g_range g) (l_range k)"
  shows "is_Threw (acceptSuggestion now sid u s) \<and>
         thrown (acceptSuggestion now sid u s) = RangeLocked \<and>
         suggestions (final (acceptSuggestion now sid u s)) = suggestions s \<and>
         getSuggestion sid (final (acceptSuggestion now sid u s)) = Some g \<and>
         quill (final (acceptSuggestion now sid u s)) = quill s \<and>
         version (final (acceptSuggestion now sid u s)) = version s \<and>
         changeLog (final (acceptSuggestion now sid u s)) = changeLog s"
proof -
  from assms(6) have "rangesOverlap \<lparr>index = index (g_range g), length_r = length_r (g_range g)\<rparr> (l_range k)"
    by (simp add: rangesOverlap_def)
  with assms(3-5) have b: "fst (isRangeLocked now (index (g_range g)) (length_r (g_range g)) u s)"
    by (rule isRangeLocked_blocked)
  have "acceptSuggestion now sid u s =
          Threw RangeLocked (snd (isRangeLocked now (index (g_range g)) (length_r (g_range g)) u s))"
    using assms(1,2) by (simp add: acceptSuggestion_def replaceRange_Threw [OF b])
  then show ?thesis
    using assms(1) by (simp add: isRangeLocked_frame getSuggestion_def)
qed

lemma ex_locked_locks:
  "rangeLocks ex_locked =
     [\<lparr>lockId = 1, l_userId = ''user1'', l_range = \<lparr>index = 10, length_r = 20\<rparr>,
       l_timestamp = 1, expiresAt = 60001\<rparr>]"
  by (simp add: ex_locked_def suggestEdit_def lockRange_def lockRange_conflict_def newDoc_def Let_def)

lemma ex_locked_suggestion:
  "getSuggestion 1 ex_locked =
     Some \<lparr> suggestionId = 1, g_userId = ''llm-agent'',
                g_range = \<lparr>index = 10, length_r = 8\<rparr>,
                newText = ''better text'', oldText = ''ument te'',
                status = Pending, g_metadata = [], createdAt = 2,
                acceptedBy = None, acceptedAt = None,
                rejectedBy = None, rejectedAt = None, rejectionReason = None \<rparr>"
  by (simp add: ex_locked_def suggestEdit_def lockRange_def lockRange_conflict_def newDoc_def Let_def
       getSuggestion_def getRangeText_def getText_def)

text \<open>
  The scenario: \<open>user1\<close> locks \<open>[10, 30)\<close>, the agent suggests an edit of \<open>[10, 18)\<close>,
  \<open>user2\<close> accepts.
\<close>

theorem accept_locked_keeps_pending_witness:
  "is_Threw (acceptSuggestion 3 1 ''user2'' ex_locked) \<and>
   thrown (acceptSuggestion 3 1 ''user2'' ex_locked) = RangeLocked \<and>
   map status (suggestions (final (acceptSuggestion 3 1 ''user2'' ex_locked))) = [Pending] \<and>
   map acceptedBy (suggestions (final (acceptSuggestion 3 1 ''user2'' ex_locked))) = [None]"
proof -
  let ?k = "\<lparr>lockId = 1, l_userId = ''user1'', l_range = \<lparr>index = 10, length_r = 20\<rparr>,
       l_timestamp = 1, expiresAt = 60001\<rparr>"
  let ?g = "\<lparr> suggestionId = 1, g_userId = ''llm-agent'',
                g_range = \<lparr>index = 10, length_r = 8\<rparr>,
                newText = ''better text'', oldText = ''ument te'',
                status = Pending, g_metadata = [], createdAt = 2,
                acceptedBy = None, acceptedAt = None,
                rejectedBy = None, rejectedAt = None, rejectionReason = None \<rparr>"
  have 1: "?k \<in> set (rangeLocks ex_locked)" by (simp add: ex_locked_locks)
  have 2: "\<not> 3 > expiresAt ?k" "l_userId ?k \<noteq> ''user2''" "status ?g = Pending" by simp_all
  have 3: "rangesOverlap (g_range ?g) (l_range ?k)" by (simp add: rangesOverlap_def)
  have 4: "suggestions ex_locked = [?g]"
    by (simp add: ex_locked_def suggestEdit_def lockRange_def lockRange_conflict_def newDoc_def Let_def
       getSuggestion_def getRangeText_def getText_def)
  from accept_locked_keeps_pending [OF ex_locked_suggestion 2(3) 1 2(1) 2(2) 3] 4
  show ?thesis by simp
qed

lemma perform_Threw:
  assumes "checkedRange c = Some r" "fst (isRangeLocked now (index r) (length_r r) u s)"
  shows "perform now c u s = Threw RangeLocked (snd (isRangeLocked now (index r) (length_r r) u s))"
  using assms
  by (cases c) (auto simp: insertAt_Threw deleteRange_Threw replaceRange_Threw)

lemma perform_Returned:
  assumes "checkedRange c = Some r" "\<not> fst (isRangeLocked now (index r) (length_r r) u s)"
  shows "is_Returned (perform now c u s)"
  using assms
  by (cases c) (auto simp: insertAt_Returned deleteRange_Returned replaceRange_Returned)

lemma ex_two_locks_locks:
  "rangeLocks ex_two_locks =
     [\<lparr>lockId = 1, l_userId = ''userA'', l_range = \<lparr>index = 10, length_r = 20\<rparr>,
        l_timestamp = 0, expiresAt = 60000\<rparr>,
      \<lparr>lockId = 2, l_userId = ''userC'', l_range = \<lparr>index = 40, length_r = 10\<rparr>,
        l_timestamp = 1, expiresAt = 60001\<rparr>]"
  by (simp add: ex_two_locks_def lockRange_def lockRange_conflict_def newDoc_def Let_def
        rangesOverlap_def)

text \<open>
  The owner of a lock is not always let through: \<open>userA\<close> holds \<open>[10, 30)\<close> and \<open>userC\<close>
  holds \<open>[40, 50)\<close>; deleting \<open>[25, 45)\<close> overlaps the lock of \<open>userA\<close>, and the call
  fails for \<open>userB\<close> and for \<open>userA\<close> alike, the latter on the lock of \<open>userC\<close>.
\<close>

theorem owner_blocked_by_third_lock_counterexample:
  "rangeLocks ex_two_locks =
     [\<lparr>lockId = 1, l_userId = ''userA'', l_range = \<lparr>index = 10, length_r = 20\<rparr>,
        l_timestamp = 0, expiresAt = 60000\<rparr>,
      \<lparr>lockId = 2, l_userId = ''userC'', l_range = \<lparr>index = 40, length_r = 10\<rparr>,
        l_timestamp = 1, expiresAt = 60001\<rparr>] \<and>
   rangesOverlap \<lparr>index = 25, length_r = 20\<rparr> \<lparr>index = 10, length_r = 20\<rparr> \<and>
   is_Threw (deleteRange 5 25 20 ''userB'' ex_two_locks) \<and>
   is_Threw (deleteRange 5 25 20 ''userA'' ex_two_locks) \<and>
   thrown (deleteRange 5 25 20 ''userA'' ex_two_locks) = RangeLocked"
proof -
  have a: "fst (isRangeLocked 5 25 20 ''userA'' ex_two_locks)"
    by (simp add: isRangeLocked_fst ex_two_locks_locks rangesOverlap_def)
  have b: "fst (isRangeLocked 5 25 20 ''userB'' ex_two_locks)"
    by (simp add: isRangeLocked_fst ex_two_locks_locks rangesOverlap_def)
  show ?thesis
    by (simp add: deleteRange_Threw [OF a] deleteRange_Threw [OF b] ex_two_locks_locks
          rangesOverlap_def)
qed

text \<open>
  Claim C4, amended. While a lock of user \<open>A\<close> is in the table and not expired, a call
  of \<open>insertAt\<close>, \<open>deleteRange\<close> or \<open>replaceRange\<close> by another user \<open>B\<close> over a range that
  overlaps the locked one throws the range-locked error and leaves buffer, version
  and change log as they were. The same call by \<open>A\<close> returns if and only if no
  unexpired lock of a user other than \<open>A\<close> overlaps the range of the call.
\<close>

theorem locked_range_blocks_others:
  assumes "k \<in> set (rangeLocks s)" and "\<not> now > expiresAt k" and "l_userId k = A"
    and "B \<noteq> A" and "checkedRange c = Some r" and "rangesOverlap r (l_range k)"
  shows "is_Threw (perform now c B s) \<and>
         thrown (perform now c B s) = RangeLocked \<and>
         quill (final (perform now c B s)) = quill s \<and>
         version (final (perform now c B s)) = version s \<and>
         changeLog (final (perform now c B s)) = changeLog s \<and>
         (is_Returned (perform now c A s) \<longleftrightarrow>
            \<not> (\<exists>k' \<in> set (rangeLocks s). \<not> now > expiresAt k' \<and> l_userId k' \<noteq> A \<and>
                  rangesOverlap r (l_range k')))"
proof -
  have r: "\<lparr>index = index r, length_r = length_r r\<rparr> = r" by simp
  from assms(6) have "rangesOverlap \<lparr>index = index r, length_r = length_r r\<rparr> (l_range k)"
    by (simp add: rangesOverlap_def)
  with assms(1-4) have b: "fst (isRangeLocked now (index r) (length_r r) B s)"
    by (intro isRangeLocked_blocked [of k]) simp_all
  note t = perform_Threw [OF assms(5) b]
  have "is_Returned (perform now c A s) \<longleftrightarrow> \<not> fst (isRangeLocked now (index r) (length_r r) A s)"
    using perform_Threw [OF assms(5), of now A s] perform_Returned [OF assms(5), of now A s]
    by (cases "fst (isRangeLocked now (index r) (length_r r) A s)") simp_all
  then have "is_Returned (perform now c A s) \<longleftrightarrow>
            \<not> (\<exists>k' \<in> set (rangeLocks s). \<not> now > expiresAt k' \<and> l_userId k' \<noteq> A \<and>
                  rangesOverlap r (l_range k'))"
    unfolding isRangeLocked_iff by (simp add: rangesOverlap_def)
  with t show ?thesis by (simp add: isRangeLocked_frame)
qed

theorem locked_range_blocks_others_witness:
  "is_Threw (insertAt 5 15 ''test'' ''userB'' [] ex_one_lock) \<and>
   thrown (insertAt 5 15 ''test'' ''userB'' [] ex_one_lock) = RangeLocked \<and>
   quill (final (insertAt 5 15 ''test'' ''userB'' [] ex_one_lock)) = ''Sample document text'' \<and>
   version (final (insertAt 5 15 ''test'' ''userB'' [] ex_one_lock)) = 0 \<and>
   changeLog (final (insertAt 5 15 ''test'' ''userB'' [] ex_one_lock)) = [] \<and>
   is_Returned (insertAt 5 15 ''test'' ''userA'' [] ex_one_lock)"
proof -
  let ?k = "\<lparr>lockId = 1, l_userId = ''userA'', l_range = \<lparr>index = 10, length_r = 20\<rparr>,
        l_timestamp = 0, expiresAt = 60000\<rparr>"
  have l: "rangeLocks ex_one_lock = [?k]"
    by (simp add: ex_one_lock_def lockRange_def lockRange_conflict_def newDoc_def Let_def)
  have q: "quill ex_one_lock = ''Sample document text''" "version ex_one_lock = 0"
    "changeLog ex_one_lock = []"
    by (simp_all add: ex_one_lock_def lockRange_def lockRange_conflict_def newDoc_def Let_def)
  have 1: "?k \<in> set (rangeLocks ex_one_lock)" by (simp add: l)
  have 2: "\<not> 5 > expiresAt ?k" "l_userId ?k = ''userA''" "''userB'' \<noteq> ''userA''" by simp_all
  have 3: "checkedRange (InsertAt 15 ''test'' []) = Some \<lparr>index = 15, length_r = 4\<rparr>" by simp
  have 4: "rangesOverlap \<lparr>index = 15, length_r = 4\<rparr> (l_range ?k)" by (simp add: rangesOverlap_def)
  from locked_range_blocks_others [OF 1 2(1) 2(2) 2(3) 3 4] l q
  show ?thesis by (simp add: rangesOverlap_def)
qed

section \<open>Accepting a suggestion\<close>

lemma find_map_replace:
  assumes "find (\<lambda>h. key h = k) xs = Some g" and "key g' = k"
  shows "find (\<lambda>h. key h = k) (map (\<lambda>h. if key h = k then g' else h) xs) = Some g'"
  using assms by (induction xs) (auto split: if_splits)

lemma getSuggestion_setSuggestion:
  assumes "getSuggestion sid s = Some g" and "suggestionId g' = sid"
  shows "getSuggestion sid (setSuggestion sid g' s) = Some g'"
  using find_map_replace [of suggestionId sid "suggestions s" g g'] assms
  by (simp add: getSuggestion_def setSuggestion_def)

lemma getSuggestion_id: "getSuggestion sid s = Some g \<Longrightarrow> suggestionId g = sid"
  by (auto simp: getSuggestion_def find_Some_iff)

lemma acceptSuggestion_not_pending:
  assumes "getSuggestion sid s = Some g" and "status g \<noteq> Pending"
  shows "acceptSuggestion now sid u s = Threw (SuggestionAlready (status g)) s"
  using assms by (simp add: acceptSuggestion_def)

lemma acceptSuggestion_Returned:
  assumes "getSuggestion sid s = Some g" and "status g = Pending"
    and "\<not> fst (isRangeLocked now (index (g_range g)) (length_r (g_range g)) u s)"
  shows "acceptSuggestion now sid u s =
           Returned (g\<lparr>status := Accepted, acceptedBy := Some u, acceptedAt := Some now\<rparr>)
             (setSuggestion sid (g\<lparr>status := Accepted, acceptedBy := Some u, acceptedAt := Some now\<rparr>)
                (final (replaceRange now (index (g_range g)) (length_r (g_range g)) (newText g) u [] s)))"
  using assms by (simp add: acceptSuggestion_def replaceRange_Returned Let_def)

lemma replaceRange_frame:
  assumes "\<not> fst (isRangeLocked now i l u s)"
  shows "quill (final (replaceRange now i l t u a s)) = insertText i t (deleteText i l (quill s))"
    and "suggestions (final (replaceRange now i l t u a s)) = suggestions s"
    and "version (final (replaceRange now i l t u a s)) = version s + 1"
  using assms by (simp_all add: replaceRange_Returned logChange_frame incrementVersion_def isRangeLocked_frame)

text \<open>
  Claim C5, amended. When \<open>isRangeLocked\<close> does not hold the range of a pending
  suggestion against the accepting user, \<open>acceptSuggestion\<close> returns: the buffer has the
  range of the suggestion replaced by its \<open>newText\<close> and the stored record is accepted,
  with \<open>acceptedBy\<close> and \<open>acceptedAt\<close> set. Every later \<open>acceptSuggestion\<close> on it, by any
  user at any time, throws \<open>Suggestion already accepted\<close> and changes nothing.
\<close>

theorem accept_pending_once:
  assumes "getSuggestion sid s = Some g" and "status g = Pending"
    and "\<not> fst (isRangeLocked now (index (g_range g)) (length_r (g_range g)) u s)"
  shows "is_Returned (acceptSuggestion now sid u s) \<and>
         quill (final (acceptSuggestion now sid u s)) =
           insertText (index (g_range g)) (newText g)
             (deleteText (index (g_range g)) (length_r (g_range g)) (quill s)) \<and>
         result (acceptSuggestion now sid u s) =
           g\<lparr>status := Accepted, acceptedBy := Some u, acceptedAt := Some now\<rparr> \<and>
         getSuggestion sid (final (acceptSuggestion now sid u s)) =
           Some (result (acceptSuggestion now sid u s)) \<and>
         acceptSuggestion now' sid u' (final (acceptSuggestion now sid u s)) =
           Threw (SuggestionAlready Accepted) (final (acceptSuggestion now sid u s))"
proof -
  let ?g' = "g\<lparr>status := Accepted, acceptedBy := Some u, acceptedAt := Some now\<rparr>"
  let ?s1 = "final (replaceRange now (index (g_range g)) (length_r (g_range g)) (newText g) u [] s)"
  note r = acceptSuggestion_Returned [OF assms]
  have g1: "getSuggestion sid ?s1 = Some g"
    using assms(1) by (simp add: getSuggestion_def replaceRange_frame [OF assms(3)])
  have id: "suggestionId ?g' = sid" using getSuggestion_id [OF assms(1)] by simp
  have g2: "getSuggestion sid (setSuggestion sid ?g' ?s1) = Some ?g'"
    by (rule getSuggestion_setSuggestion [OF g1 id])
  have q: "quill (setSuggestion sid ?g' ?s1) =
      insertText (index (g_range g)) (newText g)
             (deleteText (index (g_range g)) (length_r (g_range g)) (quill s))"
    by (simp add: setSuggestion_def replaceRange_frame [OF assms(3)])
  have again: "acceptSuggestion now' sid u' (setSuggestion sid ?g' ?s1) =
      Threw (SuggestionAlready Accepted) (setSuggestion sid ?g' ?s1)"
    using acceptSuggestion_not_pending [OF g2, of now' u'] by simp
  show ?thesis
    unfolding r using g2 q again by simp
qed

lemma ex_suggested_suggestions:
  "suggestions ex_suggested =
     [\<lparr> suggestionId = 1, g_userId = ''llm-agent'',
                g_range = \<lparr>index = 10, length_r = 8\<rparr>,
                newText = ''better text'', oldText = ''ument te'',
                status = Pending, g_metadata = [], createdAt = 2,
                acceptedBy = None, acceptedAt = None,
                rejectedBy = None, rejectedAt = None, rejectionReason = None \<rparr>]"
    "rangeLocks ex_suggested = []" "quill ex_suggested = ''Sample document text''"
  by (simp_all add: ex_suggested_def suggestEdit_def newDoc_def Let_def getRangeText_def getText_def)

theorem accept_pending_once_witness:
  "is_Returned (acceptSuggestion 3 1 ''user1'' ex_suggested) \<and>
   quill (final (acceptSuggestion 3 1 ''user1'' ex_suggested)) = ''Sample docbetter textxt'' \<and>
   status (result (acceptSuggestion 3 1 ''user1'' ex_suggested)) = Accepted \<and>
   is_Threw (acceptSuggestion 4 1 ''user1'' (final (acceptSuggestion 3 1 ''user1'' ex_suggested))) \<and>
   thrown (acceptSuggestion 4 1 ''user1'' (final (acceptSuggestion 3 1 ''user1'' ex_suggested)))
     = SuggestionAlready Accepted"
proof -
  let ?g = "\<lparr> suggestionId = 1, g_userId = ''llm-agent'',
                g_range = \<lparr>index = 10, length_r = 8\<rparr>,
                newText = ''better text'', oldText = ''ument te'',
                status = Pending, g_metadata = [], createdAt = 2,
                acceptedBy = None, acceptedAt = None,
                rejectedBy = None, rejectedAt = None, rejectionReason = None \<rparr>"
  have 1: "getSuggestion 1 ex_suggested = Some ?g"
    by (simp add: getSuggestion_def ex_suggested_suggestions)
  have 2: "status ?g = Pending" by simp
  have 3: "\<not> fst (isRangeLocked 3 (index (g_range ?g)) (length_r (g_range ?g)) ''user1'' ex_suggested)"
    by (simp add: isRangeLocked_fst ex_suggested_suggestions)
  from accept_pending_once [OF 1 2 3, of 4 "''user1''"]
  show ?thesis
    by (simp add: ex_suggested_suggestions insertText_def deleteText_def)
qed

text \<open>
  A first accept of a pending suggestion need not go through: here \<open>user1\<close> holds a
  lock over the range of the suggestion and the accept of \<open>user2\<close> throws.
\<close>

theorem accept_pending_locked_counterexample:
  "map status (suggestions ex_locked) = [Pending] \<and>
   is_Threw (acceptSuggestion 3 1 ''user2'' ex_locked) \<and>
   thrown (acceptSuggestion 3 1 ''user2'' ex_locked) = RangeLocked"
proof -
  have b: "fst (isRangeLocked 3 10 8 ''user2'' ex_locked)"
    by (simp add: isRangeLocked_fst ex_locked_locks rangesOverlap_def)
  have s: "map status (suggestions ex_locked) = [Pending]"
    by (simp add: ex_locked_def suggestEdit_def lockRange_def lockRange_conflict_def newDoc_def Let_def)
  show ?thesis
    using s ex_locked_suggestion by (simp add: acceptSuggestion_def replaceRange_Threw [OF b])
qed

text \<open>
  \<open>rejectSuggestion\<close> looks up the record and overwrites its status without asking
  what the status is: on the suggestion accepted above it returns, and the record
  now reads rejected.
\<close>

lemma reject_after_accept_returns:
  "is_Returned (rejectSuggestion 4 1 ''user1'' ''Not needed''
      (final (acceptSuggestion 3 1 ''user1'' ex_suggested))) \<and>
   status (result (rejectSuggestion 4 1 ''user1'' ''Not needed''
      (final (acceptSuggestion 3 1 ''user1'' ex_suggested)))) = Rejected"
proof -
  let ?g = "\<lparr> suggestionId = 1, g_userId = ''llm-agent'',
                g_range = \<lparr>index = 10, length_r = 8\<rparr>,
                newText = ''better text'', oldText = ''ument te'',
                status = Pending, g_metadata = [], createdAt = 2,
                acceptedBy = None, acceptedAt = None,
                rejectedBy = None, rejectedAt = None, rejectionReason = None \<rparr>"
  have 1: "getSuggestion 1 ex_suggested = Some ?g"
    by (simp add: getSuggestion_def ex_suggested_suggestions)
  have 3: "\<not> fst (isRangeLocked 3 (index (g_range ?g)) (length_r (g_range ?g)) ''user1'' ex_suggested)"
    by (simp add: isRangeLocked_fst ex_suggested_suggestions)
  have "acceptSuggestion 3 1 ''user1'' ex_suggested =
      Returned (?g\<lparr>status := Accepted, acceptedBy := Some ''user1'', acceptedAt := Some 3\<rparr>)
             (setSuggestion 1 (?g\<lparr>status := Accepted, acceptedBy := Some ''user1'', acceptedAt := Some 3\<rparr>)
                (final (replaceRange 3 (index (g_range ?g)) (length_r (g_range ?g)) (newText ?g) ''user1'' [] ex_suggested)))"
    by (rule acceptSuggestion_Returned [OF 1 _ 3]) simp
  then show ?thesis
    using replaceRange_frame(2) [OF 3, of "newText ?g" "[]"]
    by (simp add: rejectSuggestion_def getSuggestion_def setSuggestion_def ex_suggested_suggestions Let_def)
qed

section \<open>Reverting a quick correction\<close>

lemma blocked_mono:
  assumes "fst (isRangeLocked now2 i l u s2)" and "set (rangeLocks s2) \<subseteq> set (rangeLocks s1)"
    and "now1 \<le> now2"
  shows "fst (isRangeLocked now1 i l u s1)"
proof -
  from assms(1) obtain k where k: "k \<in> set (rangeLocks s2)" "\<not> now2 > expiresAt k"
    "l_userId k \<noteq> u" "rangesOverlap \<lparr>index = i, length_r = l\<rparr> (l_range k)"
    unfolding isRangeLocked_iff by blast
  from k(2) assms(3) have "\<not> now1 > expiresAt k" by simp
  with k assms(2) show ?thesis unfolding isRangeLocked_iff by blast
qed

lemma isRangeLocked_locks_subset:
  "set (rangeLocks (snd (isRangeLocked now i l u s))) \<subseteq> set (rangeLocks s)"
  by (simp add: isRangeLocked_snd isRangeLocked_loop_subset)

lemma deleteRange_frame:
  assumes "\<not> fst (isRangeLocked now i l u s)"
  shows "quill (final (deleteRange now i l u s)) = deleteText i l (quill s)"
    and "corrections (final (deleteRange now i l u s)) = corrections s"
    and "version (final (deleteRange now i l u s)) = version s + 1"
    and "rangeLocks (final (deleteRange now i l u s)) = rangeLocks (snd (isRangeLocked now i l u s))"
  using assms by (simp_all add: deleteRange_Returned logChange_frame incrementVersion_def isRangeLocked_frame)

lemma insertAt_frame:
  assumes "\<not> fst (isRangeLocked now i (length t) u s)"
  shows "quill (final (insertAt now i t u a s)) = insertText i t (quill s)"
    and "corrections (final (insertAt now i t u a s)) = corrections s"
    and "version (final (insertAt now i t u a s)) = version s + 1"
    and "rangeLocks (final (insertAt now i t u a s)) = rangeLocks (snd (isRangeLocked now i (length t) u s))"
  using assms by (simp_all add: insertAt_Returned logChange_frame incrementVersion_def isRangeLocked_frame)

lemma getCorrection_id: "getCorrection cid s = Some c \<Longrightarrow> correctionId c = cid"
  by (auto simp: getCorrection_def find_Some_iff)

lemma getCorrection_setCorrection:
  assumes "getCorrection cid s = Some c" and "correctionId c' = cid"
  shows "getCorrection cid (setCorrection cid c' s) = Some c'"
  using find_map_replace [of correctionId cid "corrections s" c c'] assms
  by (simp add: getCorrection_def setCorrection_def)

lemma revertCorrection_Returned_iff:
  assumes "getCorrection cid s = Some c"
  shows "is_Returned (revertCorrection now cid u s) \<longleftrightarrow>
           \<not> fst (isRangeLocked now (index (c_range c)) (length_r (c_range c)) u s) \<and>
           \<not> fst (isRangeLocked now (index (c_range c)) (length (original c)) u
                  (final (deleteRange now (index (c_range c)) (length_r (c_range c)) u s)))"
proof (cases "fst (isRangeLocked now (index (c_range c)) (length_r (c_range c)) u s)")
  case True
  then show ?thesis using assms by (simp add: revertCorrection_def deleteRange_Threw)
next
  case False
  note d = deleteRange_Returned [OF False]
  show ?thesis
  proof (cases "fst (isRangeLocked now (index (c_range c)) (length (original c)) u
                  (final (deleteRange now (index (c_range c)) (length_r (c_range c)) u s)))")
    case True
    then show ?thesis using assms False
      by (simp add: revertCorrection_def d insertAt_Threw)
  next
    case b: False
    then show ?thesis using assms False
      by (simp add: revertCorrection_def d insertAt_Returned Let_def)
  qed
qed

lemma revertCorrection_Returned_eq:
  assumes "getCorrection cid s = Some c"
    and "is_Returned (revertCorrection now cid u s)"
  shows "revertCorrection now cid u s =
     Returned \<lparr> rr_correctionId = cid, rr_reverted = True, originalText = original c,
                rr_version = version (final (insertAt now (index (c_range c)) (original c) u []
                  (final (deleteRange now (index (c_range c)) (length_r (c_range c)) u s)))) \<rparr>
       (setCorrection cid (c\<lparr>reverted := True, revertedBy := Some u, revertedAt := Some now\<rparr>)
          (final (insertAt now (index (c_range c)) (original c) u []
             (final (deleteRange now (index (c_range c)) (length_r (c_range c)) u s)))))"
proof -
  from assms have a: "\<not> fst (isRangeLocked now (index (c_range c)) (length_r (c_range c)) u s)"
    and b: "\<not> fst (isRangeLocked now (index (c_range c)) (length (original c)) u
                  (final (deleteRange now (index (c_range c)) (length_r (c_range c)) u s)))"
    by (simp_all add: revertCorrection_Returned_iff)
  from b show ?thesis
    using assms(1) 
    by (simp add: revertCorrection_def deleteRange_Returned [OF a] insertAt_Returned Let_def)
qed

text \<open>
  What \<open>applyQuickCorrection\<close> records. In a document whose stored correction ids do
  not exceed the counter, as in every document built by the operations, a call that
  returns has stored the record it returns, with the original text, and the range
  of the applied one.
\<close>

lemma find_append_fresh:
  assumes "\<forall>h \<in> set xs. \<not> P h" and "P c"
  shows "find P (xs @ [c]) = Some c"
  using assms by (induction xs) auto

lemma applyQuickCorrection_recorded:
  assumes "applyQuickCorrection now u i l orig corr alts meta s = Returned c s'"
    and "\<forall>h \<in> set (corrections s). correctionId h \<le> correctionCounter s"
  shows "getCorrection (correctionId c) s' = Some c"
    and "c_range c = \<lparr>index = i, length_r = length corr\<rparr>"
    and "original c = orig" and "applied c = corr" and "\<not> reverted c"
    and "quill s' = insertText i corr (deleteText i l (quill s))"
proof -
  define cid where "cid = correctionCounter s + 1"
  define s0 where "s0 = s\<lparr>correctionCounter := cid\<rparr>"
  define s1 where "s1 = final (deleteRange now i l u s0)"
  define s2 where "s2 = final (insertAt now i corr u [] s1)"
  define c0 where "c0 = \<lparr> correctionId = cid, c_userId = u,
                             c_range = \<lparr>index = i, length_r = length corr\<rparr>,
                             original = orig, applied = corr, alternates = alts,
                             c_metadata = meta, c_timestamp = now, c_version = version s2,
                             reverted = False, revertedBy = None, revertedAt = None \<rparr>"
  define cs1 where "cs1 = corrections s @ [c0]"
  define cs2 where "cs2 = (if length cs1 > 100 then tl cs1 else cs1)"
  have unf: "applyQuickCorrection now u i l orig corr alts meta s =
     (case deleteRange now i l u s0 of
           Threw e s1 \<Rightarrow> Threw e s1
         | Returned _ s1 \<Rightarrow>
             (case insertAt now i corr u [] s1 of
                Threw e s2 \<Rightarrow> Threw e s2
              | Returned _ s2 \<Rightarrow>
                  (let c = \<lparr> correctionId = cid, c_userId = u,
                             c_range = \<lparr>index = i, length_r = length corr\<rparr>,
                             original = orig, applied = corr, alternates = alts,
                             c_metadata = meta, c_timestamp = now, c_version = version s2,
                             reverted = False, revertedBy = None, revertedAt = None \<rparr>;
                       cs1 = (if cid \<in> correctionId ` set (corrections s2)
                              then map (\<lambda>h. if correctionId h = cid then c else h) (corrections s2)
                              else corrections s2 @ [c]);
                       cs2 = (if length cs1 > 100 then tl cs1 else cs1)
                   in Returned c (s2\<lparr>corrections := cs2\<rparr>))))"
    unfolding applyQuickCorrection_def cid_def s0_def Let_def ..
  have a: "\<not> fst (isRangeLocked now i l u s0)"
  proof
    assume "fst (isRangeLocked now i l u s0)"
    then have "is_Threw (applyQuickCorrection now u i l orig corr alts meta s)"
      unfolding unf by (simp add: deleteRange_Threw)
    with assms(1) show False by simp
  qed
  have d: "deleteRange now i l u s0 = Returned (result (deleteRange now i l u s0)) s1"
    unfolding s1_def using deleteRange_Returned [OF a] by simp
  have b: "\<not> fst (isRangeLocked now i (length corr) u s1)"
  proof
    assume "fst (isRangeLocked now i (length corr) u s1)"
    then have "is_Threw (applyQuickCorrection now u i l orig corr alts meta s)"
      unfolding unf by (subst d) (simp add: insertAt_Threw)
    with assms(1) show False by simp
  qed
  have n: "insertAt now i corr u [] s1 = Returned (result (insertAt now i corr u [] s1)) s2"
    unfolding s2_def using insertAt_Returned [OF b] by simp
  have cs: "corrections s2 = corrections s"
    unfolding s2_def s1_def
    using a b by (simp add: insertAt_frame s1_def deleteRange_frame s0_def)
  have q: "quill s2 = insertText i corr (deleteText i l (quill s))"
    unfolding s2_def s1_def
    using a b by (simp add: insertAt_frame s1_def deleteRange_frame s0_def)
  have nf: "\<forall>h \<in> set (corrections s). \<not> correctionId h = cid"
    using assms(2) unfolding cid_def by fastforce
  then have fresh: "cid \<notin> correctionId ` set (corrections s)"
    by auto
  have e: "applyQuickCorrection now u i l orig corr alts meta s =
      Returned c0 (s2\<lparr>corrections := cs2\<rparr>)"
    unfolding unf by (subst d, simp, subst n)
      (simp add: fresh cs Let_def c0_def cs2_def cs1_def)
  with assms(1) have c: "c = c0" and s': "s' = s2\<lparr>corrections := cs2\<rparr>" by simp_all
  have [simp]: "correctionId c0 = cid" by (simp add: c0_def)
  have f1: "find (\<lambda>h. correctionId h = cid) cs1 = Some c0"
    unfolding cs1_def by (rule find_append_fresh [OF nf]) simp
  have f2: "find (\<lambda>h. correctionId h = cid) cs2 = Some c0"
  proof (cases "corrections s")
    case Nil
    then show ?thesis by (simp add: cs2_def cs1_def)
  next
    case (Cons x xs)
    with nf have "\<forall>h \<in> set xs. \<not> correctionId h = cid" by simp
    then have "find (\<lambda>h. correctionId h = cid) (xs @ [c0]) = Some c0"
      by (rule find_append_fresh) simp
    with f1 Cons show ?thesis by (simp add: cs2_def cs1_def)
  qed
  show "getCorrection (correctionId c) s' = Some c"
    unfolding c s' using f2 by (simp add: getCorrection_def)
  show "c_range c = \<lparr>index = i, length_r = length corr\<rparr>" "original c = orig" "applied c = corr"
    "\<not> reverted c"
    unfolding c by (simp_all add: c0_def)
  show "quill s' = insertText i corr (deleteText i l (quill s))"
    unfolding s' by (simp add: q)
qed

text \<open>
  What a \<open>revertCorrection\<close> that returns has done, for a correction \<open>c\<close> in the store
  whose index lies within the buffer: the \<open>length\<close> characters at the \<open>index\<close> of the
  range of \<open>c\<close> have been replaced by the original text of \<open>c\<close>, which is what the
  buffer now reads there, and the stored record is marked reverted. Nothing else of
  the record is written, its range least of all, and the flag is never read: a
  second \<open>revertCorrection\<close> on the same id, by the same user at the same or a later
  time, returns as well.
\<close>

lemma revertCorrection_effect:
  assumes "getCorrection cid s = Some c" and "index (c_range c) \<le> length (quill s)"
    and "is_Returned (revertCorrection now cid u s)"
  shows "quill (final (revertCorrection now cid u s)) =
           take (index (c_range c)) (quill s) @ original c @
             drop (index (c_range c) + length_r (c_range c)) (quill s) \<and>
         getText (index (c_range c)) (length (original c))
           (quill (final (revertCorrection now cid u s))) = original c \<and>
         originalText (result (revertCorrection now cid u s)) = original c \<and>
         getCorrection cid (final (revertCorrection now cid u s)) =
           Some (c\<lparr>reverted := True, revertedBy := Some u, revertedAt := Some now\<rparr>) \<and>
         (\<forall>now2. now \<le> now2 \<longrightarrow>
            is_Returned (revertCorrection now2 cid u (final (revertCorrection now cid u s))))"
proof -
  let ?i = "index (c_range c)" and ?l = "length_r (c_range c)"
  let ?c' = "c\<lparr>reverted := True, revertedBy := Some u, revertedAt := Some now\<rparr>"
  let ?s1 = "final (deleteRange now ?i ?l u s)"
  let ?s2 = "final (insertAt now ?i (original c) u [] ?s1)"
  let ?s' = "setCorrection cid ?c' ?s2"
  from assms(1,3) have a: "\<not> fst (isRangeLocked now ?i ?l u s)"
    and b: "\<not> fst (isRangeLocked now ?i (length (original c)) u ?s1)"
    by (simp_all add: revertCorrection_Returned_iff)
  note r = revertCorrection_Returned_eq [OF assms(1,3)]
  have q2: "quill ?s2 = insertText ?i (original c) (deleteText ?i ?l (quill s))"
    by (simp add: insertAt_frame [OF b] deleteRange_frame [OF a])
  have q: "quill ?s' = take ?i (quill s) @ original c @ drop (?i + ?l) (quill s)"
    using assms(2) by (simp add: setCorrection_def q2 insertText_def deleteText_def)
  have t: "getText ?i (length (original c)) (quill ?s') = original c"
    using assms(2) by (simp add: q getText_def)
  have g2: "getCorrection cid ?s2 = Some c"
    using assms(1) by (simp add: getCorrection_def insertAt_frame [OF b] deleteRange_frame [OF a])
  have id: "correctionId ?c' = cid" using getCorrection_id [OF assms(1)] by simp
  have g': "getCorrection cid ?s' = Some ?c'"
    by (rule getCorrection_setCorrection [OF g2 id])
  have l1: "set (rangeLocks ?s1) \<subseteq> set (rangeLocks s)"
    by (simp add: deleteRange_frame [OF a] isRangeLocked_locks_subset)
  have l2: "set (rangeLocks ?s') \<subseteq> set (rangeLocks ?s1)"
    by (simp add: setCorrection_def insertAt_frame [OF b] isRangeLocked_locks_subset)
  have again: "is_Returned (revertCorrection now2 cid u ?s')" if n: "now \<le> now2" for now2
  proof -
    have a2: "\<not> fst (isRangeLocked now2 ?i ?l u ?s')"
      using blocked_mono [of now2 ?i ?l u ?s' s now] a l1 l2 n by blast
    have l3: "set (rangeLocks (final (deleteRange now2 ?i ?l u ?s'))) \<subseteq> set (rangeLocks ?s')"
      by (simp add: deleteRange_frame [OF a2] isRangeLocked_locks_subset)
    have b2: "\<not> fst (isRangeLocked now2 ?i (length (original c)) u
                  (final (deleteRange now2 ?i ?l u ?s')))"
      using blocked_mono [of now2 ?i "length (original c)" u
          "final (deleteRange now2 ?i ?l u ?s')" ?s1 now] b l2 l3 n by blast
    show ?thesis
      using revertCorrection_Returned_iff [OF g', of now2 u] a2 b2 by simp
  qed
  show ?thesis
    unfolding r using q t g' again by simp
qed

lemma no_locks_free:
  assumes "rangeLocks s = []"
  shows "\<not> fst (isRangeLocked now i l u s)" and "rangeLocks (snd (isRangeLocked now i l u s)) = []"
  using assms by (simp_all add: isRangeLocked_fst isRangeLocked_snd)

lemma revert_no_locks:
  assumes "getCorrection cid s = Some c" and "rangeLocks s = []"
  shows "is_Returned (revertCorrection now cid u s)"
    and "rangeLocks (final (revertCorrection now cid u s)) = []"
    and "getCorrection cid (final (revertCorrection now cid u s)) =
           Some (c\<lparr>reverted := True, revertedBy := Some u, revertedAt := Some now\<rparr>)"
proof -
  let ?i = "index (c_range c)" and ?l = "length_r (c_range c)"
  let ?c' = "c\<lparr>reverted := True, revertedBy := Some u, revertedAt := Some now\<rparr>"
  let ?s1 = "final (deleteRange now ?i ?l u s)"
  let ?s2 = "final (insertAt now ?i (original c) u [] ?s1)"
  note a = no_locks_free [OF assms(2), of now ?i ?l u]
  have l1: "rangeLocks ?s1 = []" by (simp add: deleteRange_frame [OF a(1)] a(2))
  note b = no_locks_free [OF l1, of now ?i "length (original c)" u]
  have l2: "rangeLocks ?s2 = []" by (simp add: insertAt_frame [OF b(1)] b(2))
  show r: "is_Returned (revertCorrection now cid u s)"
    using revertCorrection_Returned_iff [OF assms(1), of now u] a(1) b(1) by simp
  note e = revertCorrection_Returned_eq [OF assms(1) r]
  show "rangeLocks (final (revertCorrection now cid u s)) = []"
    unfolding e by (simp add: setCorrection_def l2)
  have g2: "getCorrection cid ?s2 = Some c"
    using assms(1) by (simp add: getCorrection_def insertAt_frame [OF b(1)] deleteRange_frame [OF a(1)])
  have id: "correctionId ?c' = cid" using getCorrection_id [OF assms(1)] by simp
  show "getCorrection cid (final (revertCorrection now cid u s)) = Some ?c'"
    unfolding e using getCorrection_setCorrection [OF g2 id] by simp
qed

lemma ex_corrected_fields:
  "corrections ex_corrected =
     [\<lparr> correctionId = 1, c_userId = ''spell-bot'',
        c_range = \<lparr>index = 2, length_r = 9\<rparr>,
        original = ''similarley'', applied = ''similarly'', alternates = [''similarity''],
        c_metadata = [], c_timestamp = 1, c_version = 2,
        reverted = False, revertedBy = None, revertedAt = None \<rparr>]"
  "rangeLocks ex_corrected = []"
  "quill ex_corrected = ''x similarly y''"
  by (simp_all add: ex_corrected_def eval_defs)

text \<open>
  Claim C8 asks that \<open>revertCorrection\<close> restore the original text and mark the record
  reverted, and that a second \<open>revertCorrection\<close> on the same id fail. The first revert
  does as asked. The second is let through, and it works on a stale range: the
  record still has the length of the applied text, which \<open>revertCorrection\<close> does not
  bring up to date. In \<open>x similarley y\<close> the word at 2 is corrected to \<open>similarly\<close>, so
  the range is 9 long; the first revert puts \<open>similarley\<close>, 10 long, back and marks
  the record; the second revert returns, deletes 9 of these 10 characters and
  inserts the word again, and the buffer reads \<open>x similarleyy y\<close>.
\<close>

theorem second_revert_damages_text:
  "quill ex_corrected = ''x similarly y'' \<and>
   quill ex_reverted = ''x similarley y'' \<and>
   map reverted (corrections ex_reverted) = [True] \<and>
   map c_range (corrections ex_reverted) = [\<lparr>index = 2, length_r = 9\<rparr>] \<and>
   is_Returned (revertCorrection 3 1 ''user1'' ex_reverted) \<and>
   quill (final (revertCorrection 3 1 ''user1'' ex_reverted)) = ''x similarleyy y''"
proof -
  let ?c = "\<lparr> correctionId = 1, c_userId = ''spell-bot'',
        c_range = \<lparr>index = 2, length_r = 9\<rparr>,
        original = ''similarley'', applied = ''similarly'', alternates = [''similarity''],
        c_metadata = [], c_timestamp = 1, c_version = 2,
        reverted = False, revertedBy = None, revertedAt = None \<rparr>"
  let ?c' = "?c\<lparr>reverted := True, revertedBy := Some ''user1'', revertedAt := Some 2\<rparr>"
  have c: "getCorrection 1 ex_corrected = Some ?c"
    by (simp add: getCorrection_def ex_corrected_fields)
  have i: "index (c_range ?c) \<le> length (quill ex_corrected)"
    by (simp add: ex_corrected_fields)
  note r1 = revert_no_locks [OF c ex_corrected_fields(2), of 2 "''user1''"]
  note e1 = revertCorrection_effect [OF c i r1(1)]
  have q1: "quill ex_reverted = ''x similarley y''"
    unfolding ex_reverted_def using e1 by (simp add: ex_corrected_fields)
  have c': "getCorrection 1 ex_reverted = Some ?c'"
    unfolding ex_reverted_def using r1(3) by simp
  have l': "rangeLocks ex_reverted = []"
    unfolding ex_reverted_def by (rule r1(2))
  have cs: "corrections ex_reverted = [?c']"
    unfolding ex_reverted_def revertCorrection_Returned_eq [OF c r1(1)]
    by (simp add: setCorrection_def insertAt_frame(2) [OF no_locks_free(1)]
          deleteRange_frame [OF no_locks_free(1)] ex_corrected_fields no_locks_free(2))
  have i': "index (c_range ?c') \<le> length (quill ex_reverted)"
    by (simp add: q1)
  note r2 = revert_no_locks [OF c' l', of 3 "''user1''"]
  note e2 = revertCorrection_effect [OF c' i' r2(1)]
  have q2: "quill (final (revertCorrection 3 1 ''user1'' ex_reverted)) = ''x similarleyy y''"
    using e2 by (simp add: q1)
  show ?thesis
    using r2(1) q1 q2 by (simp add: ex_corrected_fields cs)
qed

section \<open>Rollback and commit\<close>

lemma ex_in_transaction_fields:
  "version ex_in_transaction = 2"
  "quill ex_in_transaction = ''SamplABe document text''"
  "map startVersion (transactionStack ex_in_transaction) = [0]"
  "map_option startVersion (currentTransaction ex_in_transaction) = Some 0"
  "map e_version (changeLog ex_in_transaction) = [1, 2]"
  by (simp_all add: ex_in_transaction_def eval_defs)

lemma rollbackTransaction_frame:
  "quill (final (rollbackTransaction now s)) = quill s"
  "version (final (rollbackTransaction now s)) = version s"
  "changeLog (final (rollbackTransaction now s)) = changeLog s"
  by (simp_all add: rollbackTransaction_def Let_def split: option.splits)

lemma commitTransaction_frame:
  "quill (final (commitTransaction now s)) = quill s"
  "version (final (commitTransaction now s)) = version s"
  "changeLog (final (commitTransaction now s)) = changeLog s"
  by (simp_all add: commitTransaction_def Let_def split: option.splits)

text \<open>
  Claim C1 asks that a rollback leave buffer and version as they were before
  \<open>beginTransaction\<close>. \<open>rollbackTransaction\<close> itself writes neither (lemma
  \<open>rollbackTransaction_frame\<close>), but the primitives called while the transaction was
  open have already edited the buffer and raised the version. On a fresh document at
  version 0, after \<open>beginTransaction\<close>, \<open>insertAt(5, A)\<close>, \<open>insertAt(6, B)\<close> and
  \<open>rollbackTransaction\<close> the version is 2 and the buffer holds both insertions.
\<close>

theorem rollback_keeps_transaction_edits:
  "version (newDoc ''Sample document text'' ''test-doc-123'' ()) = 0 \<and>
   quill (newDoc ''Sample document text'' ''test-doc-123'' ()) = ''Sample document text'' \<and>
   is_Returned (rollbackTransaction 4 ex_in_transaction) \<and>
   version (final (rollbackTransaction 4 ex_in_transaction)) = 2 \<and>
   quill (final (rollbackTransaction 4 ex_in_transaction)) = ''SamplABe document text''"
proof -
  have "is_Returned (rollbackTransaction 4 ex_in_transaction)"
    using ex_in_transaction_fields(4)
    by (cases "currentTransaction ex_in_transaction") (simp_all add: rollbackTransaction_def Let_def)
  then show ?thesis
    by (simp add: rollbackTransaction_frame ex_in_transaction_fields) (simp add: newDoc_def)
qed

text \<open>
  Claim C2 asks that a commit raise the version by one, whatever the number of
  calls in the transaction, and show one new change record. \<open>commitTransaction\<close> writes
  neither version nor log (lemma \<open>commitTransaction_frame\<close>); each primitive called in
  the transaction has raised the version and logged its own record. With two
  insertions in a transaction begun at version 0 the version after the commit is 2
  and \<open>getChangesSince(0)\<close> returns two records, of versions 1 and 2.
\<close>

theorem commit_counts_every_call:
  "map_option startVersion (currentTransaction ex_in_transaction) = Some 0 \<and>
   is_Returned (commitTransaction 4 ex_in_transaction) \<and>
   version (final (commitTransaction 4 ex_in_transaction)) = 2 \<and>
   map e_version (getChangesSince 0 (final (commitTransaction 4 ex_in_transaction))) = [1, 2]"
proof -
  have "is_Returned (commitTransaction 4 ex_in_transaction)"
    using ex_in_transaction_fields(4)
    by (cases "currentTransaction ex_in_transaction") (simp_all add: commitTransaction_def Let_def)
  moreover have "getChangesSince 0 (final (commitTransaction 4 ex_in_transaction)) =
      changeLog ex_in_transaction"
    using ex_in_transaction_fields(5)
    by (auto simp add: getChangesSince_def commitTransaction_frame filter_id_conv)
  ultimately show ?thesis
    by (simp add: commitTransaction_frame ex_in_transaction_fields)
qed

section \<open>Taking a lock\<close>

text \<open>
  For ranges that are not empty \<open>rangesOverlap\<close> is the intersection of the half-open
  intervals. \<open>lockRange\<close> returns exactly when no lock in the table, expired or not,
  of another user overlaps the range; the lock it returns is in the table and a
  timer is set to release it after the duration.
\<close>

lemma rangesOverlap_interval:
  assumes "0 < length_r a" and "0 < length_r b"
  shows "rangesOverlap a b \<longleftrightarrow>
           {index a ..< index a + length_r a} \<inter> {index b ..< index b + length_r b} \<noteq> {}"
proof
  assume "rangesOverlap a b"
  then have "max (index a) (index b) \<in>
      {index a ..< index a + length_r a} \<inter> {index b ..< index b + length_r b}"
    using assms by (auto simp: rangesOverlap_def Let_def)
  then show "{index a ..< index a + length_r a} \<inter> {index b ..< index b + length_r b} \<noteq> {}"
    by blast
next
  assume "{index a ..< index a + length_r a} \<inter> {index b ..< index b + length_r b} \<noteq> {}"
  then obtain x where "x \<in> {index a ..< index a + length_r a}" "x \<in> {index b ..< index b + length_r b}"
    by blast
  then show "rangesOverlap a b" by (auto simp: rangesOverlap_def Let_def)
qed

lemma lockRange_Returned_iff:
  "is_Returned (lockRange now u i l d s) \<longleftrightarrow>
     \<not> (\<exists>k \<in> set (rangeLocks s). l_userId k \<noteq> u \<and>
            rangesOverlap \<lparr>index = i, length_r = l\<rparr> (l_range k))"
proof (cases "lockRange_conflict u i l (rangeLocks s)")
  case None
  then have "is_Returned (lockRange now u i l d s)"
    by (simp add: lockRange_def Let_def)
  moreover from None have "\<not> (\<exists>k \<in> set (rangeLocks s). l_userId k \<noteq> u \<and>
            rangesOverlap \<lparr>index = i, length_r = l\<rparr> (l_range k))"
    by (auto simp: lockRange_conflict_def find_None_iff rangesOverlap_def)
  ultimately show ?thesis by simp
next
  case (Some k)
  then have "\<not> is_Returned (lockRange now u i l d s)"
    by (simp add: lockRange_def)
  moreover from Some have "\<exists>k \<in> set (rangeLocks s). l_userId k \<noteq> u \<and>
            rangesOverlap \<lparr>index = i, length_r = l\<rparr> (l_range k)"
    by (auto simp: lockRange_conflict_def find_Some_iff rangesOverlap_def)
  ultimately show ?thesis by simp
qed

lemma lockRange_schedules_release:
  assumes "lockRange now u i l d s = Returned k s'"
  shows "k = \<lparr>lockId = lockCounter s + 1, l_userId = u, l_range = \<lparr>index = i, length_r = l\<rparr>,
               l_timestamp = now, expiresAt = now + d\<rparr>"
    and "k \<in> set (rangeLocks s')"
    and "\<lparr>due = now + d, t_lockId = lockId k, t_userId = u\<rparr> \<in> set (timers s')"
  using assms
  by (auto simp: lockRange_def Let_def split: option.splits if_splits)

text \<open>
  Claim C3 lets \<open>lockRange\<close> fail only on an unexpired lock of another user. The loop
  of \<open>lockRange\<close> does not read \<open>expiresAt\<close>, unlike the loop of \<open>isRangeLocked\<close>. The lock
  of \<open>userA\<close> on \<open>[10, 30)\<close> expired at time 1000 and its timer has not run yet; at time
  1001 \<open>isRangeLocked\<close> no longer holds \<open>[15, 20)\<close> against \<open>userB\<close>, and yet \<open>lockRange\<close> by
  \<open>userB\<close> on that range throws \<open>Range already locked by userA\<close>.
\<close>

theorem lockRange_counts_expired_lock:
  "rangeLocks ex_expired_lock =
     [\<lparr>lockId = 1, l_userId = ''userA'', l_range = \<lparr>index = 10, length_r = 20\<rparr>,
        l_timestamp = 0, expiresAt = 1000\<rparr>] \<and>
   timers ex_expired_lock = [\<lparr>due = 1000, t_lockId = 1, t_userId = ''userA''\<rparr>] \<and>
   \<not> fst (isRangeLocked 1001 15 5 ''userB'' ex_expired_lock) \<and>
   is_Threw (lockRange 1001 ''userB'' 15 5 60000 ex_expired_lock) \<and>
   thrown (lockRange 1001 ''userB'' 15 5 60000 ex_expired_lock) = RangeAlreadyLocked ''userA''"
  by (simp add: ex_expired_lock_def newDoc_def lockRange_def lockRange_conflict_def
        isRangeLocked_def rangesOverlap_def Let_def)

section \<open>Destroying the director bridge\<close>



end
